theory Spec2Isabelle
  imports Complex_Main
begin

section \<open>Memory model\<close>

text \<open>
  The library works on heap-allocated \<^verbatim>\<open>struct _MatrixData\<close> objects through the
  pointer type \<^verbatim>\<open>Matrix\<close>. Several operations take a source and a result pointer that may
  be the same object, so the model keeps an explicit store: a handle is \<open>None\<close> (the C
  \<^verbatim>\<open>NULL\<close>) or \<open>Some a\<close>, the address of cell \<open>a\<close> of the heap. The field \<open>data\<close> is the
  allocated buffer; its length is the allocated capacity in elements, which need not be
  \<open>rowsNumber * columnsNumber\<close>.

  What C leaves undefined is a value of type \<open>fault\<close>: dereferencing \<^verbatim>\<open>NULL\<close>, using a
  pointer to no object, and reading or writing outside a buffer. Allocation is assumed
  to succeed. \<^verbatim>\<open>size_t\<close> values are natural numbers: the dimensions considered are those of
  buffers that exist in memory, far below \<open>2 ^ 32\<close>, where no product of two sizes wraps.
  The element type \<^verbatim>\<open>double\<close> is a type parameter; only the constants and operations a
  function applies to elements are required of it.
\<close>

datatype fault = NullDereference | InvalidHandle | OutOfBounds

type_synonym Matrix = "nat option"

record 'a MatrixData =
  data :: "'a list"
  rowsNumber :: nat
  columnsNumber :: nat

type_synonym 'a heap = "'a MatrixData list"

definition MATRIX_SIZE_MAX :: nat where
  "MATRIX_SIZE_MAX = 50 * 50"

definition MATRIX_IDENTITY :: char where
  "MATRIX_IDENTITY = CHR ''I''"

definition MATRIX_TRANSPOSE :: char where
  "MATRIX_TRANSPOSE = CHR ''T''"

text \<open>Sequencing of steps that may fault.\<close>

definition andThen :: "fault + 'a \<Rightarrow> ('a \<Rightarrow> fault + 'b) \<Rightarrow> fault + 'b" where
  "andThen m f = (case m of Inl e \<Rightarrow> Inl e | Inr x \<Rightarrow> f x)"

text \<open>A counted \<^verbatim>\<open>for\<close> loop: the body runs once per index, in order, on the state.\<close>

fun for_each :: "'i list \<Rightarrow> ('i \<Rightarrow> 's \<Rightarrow> fault + 's) \<Rightarrow> 's \<Rightarrow> fault + 's" where
  "for_each [] body s = Inr s"
| "for_each (i # is) body s = andThen (body i s) (for_each is body)"

text \<open>\<^verbatim>\<open>*p\<close> for a handle \<open>p\<close>, and assignment to fields of \<^verbatim>\<open>*p\<close>.\<close>

definition deref :: "'a heap \<Rightarrow> Matrix \<Rightarrow> fault + 'a MatrixData" where
  "deref h p = (case p of None \<Rightarrow> Inl NullDereference
     | Some a \<Rightarrow> if a < length h then Inr (h ! a) else Inl InvalidHandle)"

definition assign :: "'a heap \<Rightarrow> Matrix \<Rightarrow> ('a MatrixData \<Rightarrow> 'a MatrixData) \<Rightarrow> fault + 'a heap" where
  "assign h p f = (case p of None \<Rightarrow> Inl NullDereference
     | Some a \<Rightarrow> if a < length h then Inr (h[a := f (h ! a)]) else Inl InvalidHandle)"

text \<open>Indexing into a buffer, checked against its length.\<close>

definition read_arr :: "'a list \<Rightarrow> nat \<Rightarrow> fault + 'a" where
  "read_arr xs i = (if i < length xs then Inr (xs ! i) else Inl OutOfBounds)"

definition write_arr :: "'a list \<Rightarrow> nat \<Rightarrow> 'a \<Rightarrow> fault + 'a list" where
  "write_arr xs i v = (if i < length xs then Inr (xs[i := v]) else Inl OutOfBounds)"

text \<open>A caller's \<^verbatim>\<open>double*\<close>: \<open>None\<close> is \<^verbatim>\<open>NULL\<close>, \<open>Some xs\<close> an array holding \<open>xs\<close>.\<close>

definition read_ptr :: "'a list option \<Rightarrow> nat \<Rightarrow> fault + 'a" where
  "read_ptr p i = (case p of None \<Rightarrow> Inl NullDereference | Some xs \<Rightarrow> read_arr xs i)"

definition write_ptr :: "'a list option \<Rightarrow> nat \<Rightarrow> 'a \<Rightarrow> fault + 'a list option" where
  "write_ptr p i v = (case p of None \<Rightarrow> Inl NullDereference
     | Some xs \<Rightarrow> andThen (write_arr xs i v) (\<lambda>ys. Inr (Some ys)))"

text \<open>\<^verbatim>\<open>p->data[i]\<close> as an rvalue and as the target of an assignment.\<close>

definition load :: "'a heap \<Rightarrow> Matrix \<Rightarrow> nat \<Rightarrow> fault + 'a" where
  "load h p i = andThen (deref h p) (\<lambda>m. read_arr (data m) i)"

definition store :: "'a heap \<Rightarrow> Matrix \<Rightarrow> nat \<Rightarrow> 'a \<Rightarrow> fault + 'a heap" where
  "store h p i v = andThen (deref h p) (\<lambda>m.
     andThen (write_arr (data m) i v) (\<lambda>d. assign h p (\<lambda>m'. m'\<lparr>data := d\<rparr>)))"

text \<open>
  \<^verbatim>\<open>memset( buf, 0, n * sizeof(double) )\<close> and \<^verbatim>\<open>memcpy( dst, src, n * sizeof(double) )\<close>
  on buffers, counted in elements. \<^verbatim>\<open>realloc\<close> keeps the common prefix; the cells it adds
  are indeterminate in C and the only caller zeroes the whole buffer before reading it,
  so the model fills them with zero.
\<close>

definition memset0 :: "'a::zero list \<Rightarrow> nat \<Rightarrow> fault + 'a list" where
  "memset0 buf n = (if n \<le> length buf then Inr (replicate n 0 @ drop n buf) else Inl OutOfBounds)"

definition memcpy :: "'a list \<Rightarrow> 'a list \<Rightarrow> nat \<Rightarrow> fault + 'a list" where
  "memcpy dst src n =
     (if n \<le> length dst \<and> n \<le> length src then Inr (take n src @ drop n dst) else Inl OutOfBounds)"

definition realloc :: "'a::zero list \<Rightarrow> nat \<Rightarrow> 'a list" where
  "realloc buf n = take n buf @ replicate (n - length buf) 0"

section \<open>Matrix handle and storage (matrix.c)\<close>

definition Mat_Clear :: "'a::zero heap \<Rightarrow> Matrix \<Rightarrow> fault + (Matrix \<times> 'a heap)" where
  "Mat_Clear h matrix = (case matrix of None \<Rightarrow> Inr (None, h)
     | Some a \<Rightarrow> andThen (deref h matrix) (\<lambda>m.
         andThen (memset0 (data m) (rowsNumber m * columnsNumber m)) (\<lambda>d.
         andThen (assign h matrix (\<lambda>m'. m'\<lparr>data := d\<rparr>)) (\<lambda>h'. Inr (matrix, h')))))"

definition Mat_GetWidth :: "'a heap \<Rightarrow> Matrix \<Rightarrow> fault + nat" where
  "Mat_GetWidth h matrix = (case matrix of None \<Rightarrow> Inr 0
     | Some a \<Rightarrow> andThen (deref h matrix) (\<lambda>m. Inr (columnsNumber m)))"

definition Mat_GetHeight :: "'a heap \<Rightarrow> Matrix \<Rightarrow> fault + nat" where
  "Mat_GetHeight h matrix = (case matrix of None \<Rightarrow> Inr 0
     | Some a \<Rightarrow> andThen (deref h matrix) (\<lambda>m. Inr (rowsNumber m)))"

definition Mat_GetElement :: "'a::zero heap \<Rightarrow> Matrix \<Rightarrow> nat \<Rightarrow> nat \<Rightarrow> fault + 'a" where
  "Mat_GetElement h matrix row column = (case matrix of None \<Rightarrow> Inr 0
     | Some a \<Rightarrow> andThen (deref h matrix) (\<lambda>m.
         if row \<ge> rowsNumber m \<or> column \<ge> columnsNumber m then Inr 0
         else load h matrix (column * rowsNumber m + row)))"

definition Mat_SetElement :: "'a heap \<Rightarrow> Matrix \<Rightarrow> nat \<Rightarrow> nat \<Rightarrow> 'a \<Rightarrow> fault + 'a heap" where
  "Mat_SetElement h matrix row column v = (case matrix of None \<Rightarrow> Inr h
     | Some a \<Rightarrow> andThen (deref h matrix) (\<lambda>m.
         if row \<ge> rowsNumber m \<or> column \<ge> columnsNumber m then Inr h
         else store h matrix (column * rowsNumber m + row) v))"

text \<open>
  \<open>Mat_GetData\<close> fills the caller's buffer and returns the pointer to it; the model
  returns the buffer's new contents, or \<open>None\<close> for the \<^verbatim>\<open>NULL\<close> result. The loop bounds
  are fields of the matrix that the loop bodies do not assign, so they are read once.
\<close>

definition Mat_GetData :: "'a heap \<Rightarrow> Matrix \<Rightarrow> 'a list option \<Rightarrow> fault + 'a list option" where
  "Mat_GetData h matrix buffer = (case matrix of None \<Rightarrow> Inr None
     | Some a \<Rightarrow> andThen (deref h matrix) (\<lambda>m.
         for_each [0..<rowsNumber m] (\<lambda>row.
           for_each [0..<columnsNumber m] (\<lambda>column buf.
             andThen (load h matrix (column * rowsNumber m + row)) (\<lambda>v.
               write_ptr buf (row * columnsNumber m + column) v))) buffer))"

definition Mat_SetData :: "'a heap \<Rightarrow> Matrix \<Rightarrow> 'a list option \<Rightarrow> fault + 'a heap" where
  "Mat_SetData h matrix dat = (case matrix of None \<Rightarrow> Inr h
     | Some a \<Rightarrow> andThen (deref h matrix) (\<lambda>m.
         for_each [0..<columnsNumber m] (\<lambda>column.
           for_each [0..<rowsNumber m] (\<lambda>row h'.
             andThen (read_ptr dat (row * columnsNumber m + column)) (\<lambda>v.
               store h' matrix (column * rowsNumber m + row) v))) h))"

text \<open>
  \<open>Mat_Create\<close>: \<^verbatim>\<open>malloc\<close> of the struct is a new heap cell, whose address is the next
  free index; \<^verbatim>\<open>calloc\<close> gives a zeroed buffer of \<open>rowsNumber * columnsNumber\<close> elements.
\<close>

definition Mat_Create :: "'a::zero heap \<Rightarrow> 'a list option \<Rightarrow> nat \<Rightarrow> nat \<Rightarrow> fault + (Matrix \<times> 'a heap)" where
  "Mat_Create h dat rows columns =
     (if rows > MATRIX_SIZE_MAX \<or> columns > MATRIX_SIZE_MAX then Inr (None, h)
      else
        let newMatrix = Some (length h);
            h1 = h @ [\<lparr>data = replicate (rows * columns) 0, rowsNumber = rows, columnsNumber = columns\<rparr>]
        in if dat = None then andThen (Mat_Clear h1 newMatrix) (\<lambda>(_, h2). Inr (newMatrix, h2))
           else andThen (Mat_SetData h1 newMatrix dat) (\<lambda>h2. Inr (newMatrix, h2)))"

definition Mat_CreateSquare :: "'a::{zero,one} heap \<Rightarrow> nat \<Rightarrow> char \<Rightarrow> fault + (Matrix \<times> 'a heap)" where
  "Mat_CreateSquare h sz ty =
     andThen (Mat_Create h None sz sz) (\<lambda>(newSquareMatrix, h1).
       andThen (if ty = MATRIX_IDENTITY
                then for_each [0..<sz] (\<lambda>line h'. store h' newSquareMatrix (line * sz + line) 1) h1
                else Inr h1)
         (\<lambda>h2. Inr (newSquareMatrix, h2)))"

text \<open>
  Scratch arrays are locals of \<open>MATRIX_SIZE_MAX * MATRIX_SIZE_MAX\<close> elements. One filled by
  \<^verbatim>\<open>memcpy\<close> from a buffer is the list of the elements copied: the cells after them are
  never read. One declared with \<^verbatim>\<open>= { 0 }\<close> and written by index is a function from
  indices to elements, all zero at first, with the capacity checked at every access.
\<close>

definition scratch_copy :: "'a list \<Rightarrow> nat \<Rightarrow> fault + 'a list" where
  "scratch_copy src n =
     (if n \<le> MATRIX_SIZE_MAX * MATRIX_SIZE_MAX \<and> n \<le> length src then Inr (take n src)
      else Inl OutOfBounds)"

definition scratch_write :: "(nat \<Rightarrow> 'a) \<Rightarrow> nat \<Rightarrow> 'a \<Rightarrow> fault + (nat \<Rightarrow> 'a)" where
  "scratch_write aux i v =
     (if i < MATRIX_SIZE_MAX * MATRIX_SIZE_MAX then Inr (aux(i := v)) else Inl OutOfBounds)"

definition scratch_block :: "(nat \<Rightarrow> 'a) \<Rightarrow> nat \<Rightarrow> fault + 'a list" where
  "scratch_block aux n =
     (if n \<le> MATRIX_SIZE_MAX * MATRIX_SIZE_MAX then Inr (map aux [0..<n]) else Inl OutOfBounds)"

definition Mat_Resize :: "'a::zero heap \<Rightarrow> Matrix \<Rightarrow> nat \<Rightarrow> nat \<Rightarrow> fault + (Matrix \<times> 'a heap)" where
  "Mat_Resize h matrix rows columns = (case matrix of None \<Rightarrow> Mat_Create h None rows columns
     | Some a \<Rightarrow> andThen (deref h matrix) (\<lambda>m.
         let buf = (if rowsNumber m * columnsNumber m < rows * columns
                    then realloc (data m) (rows * columns) else data m)
         in andThen (scratch_copy buf (rowsNumber m * columnsNumber m)) (\<lambda>auxArray.
            andThen (memset0 buf (rows * columns)) (\<lambda>zeroed.
            andThen (for_each [0..<columnsNumber m] (\<lambda>column.
                       for_each [0..<rowsNumber m] (\<lambda>row d.
                         andThen (read_arr auxArray (column * rowsNumber m + row)) (\<lambda>v.
                           write_arr d (column * rows + row) v))) zeroed) (\<lambda>d.
            andThen (assign h matrix (\<lambda>_. \<lparr>data = d, rowsNumber = rows, columnsNumber = columns\<rparr>))
              (\<lambda>h'. Inr (matrix, h')))))))"

section \<open>Algebraic operations (matrix.c)\<close>

text \<open>
  Source and result may be the same heap cell, so every field access goes through the
  heap as it is at that statement.
\<close>

definition Mat_Scale :: "'a::times heap \<Rightarrow> Matrix \<Rightarrow> 'a \<Rightarrow> Matrix \<Rightarrow> fault + (Matrix \<times> 'a heap)" where
  "Mat_Scale h matrix scalar result = (case matrix of None \<Rightarrow> Inr (None, h)
     | Some a \<Rightarrow> andThen (deref h result) (\<lambda>r.
         let elementsNumber = rowsNumber r * columnsNumber r
         in andThen (for_each [0..<elementsNumber] (\<lambda>elementIndex h'.
                       andThen (load h' matrix elementIndex) (\<lambda>v.
                         store h' result elementIndex (scalar * v))) h) (\<lambda>h1.
            andThen (deref h1 matrix) (\<lambda>m1.
            andThen (assign h1 result (\<lambda>r'. r'\<lparr>rowsNumber := rowsNumber m1\<rparr>)) (\<lambda>h2.
            andThen (deref h2 matrix) (\<lambda>m2.
            andThen (assign h2 result (\<lambda>r'. r'\<lparr>columnsNumber := columnsNumber m2\<rparr>)) (\<lambda>h3.
              Inr (result, h3))))))))"

definition Mat_Sum :: "'a::{plus,times} heap \<Rightarrow> Matrix \<Rightarrow> 'a \<Rightarrow> Matrix \<Rightarrow> 'a \<Rightarrow> Matrix
    \<Rightarrow> fault + (Matrix \<times> 'a heap)" where
  "Mat_Sum h matrix_1 weight_1 matrix_2 weight_2 result =
     (if matrix_1 = None \<or> matrix_2 = None then Inr (None, h)
      else andThen (deref h matrix_1) (\<lambda>m1.
           andThen (deref h matrix_2) (\<lambda>m2.
             if rowsNumber m1 \<noteq> rowsNumber m2 \<or> columnsNumber m1 \<noteq> columnsNumber m2
             then Inr (None, h)
             else
               andThen (assign h result (\<lambda>r'. r'\<lparr>rowsNumber := rowsNumber m1\<rparr>)) (\<lambda>h1.
               andThen (deref h1 matrix_1) (\<lambda>m1'.
               andThen (assign h1 result (\<lambda>r'. r'\<lparr>columnsNumber := columnsNumber m1'\<rparr>)) (\<lambda>h2.
               andThen (deref h2 result) (\<lambda>r.
               andThen (for_each [0..<rowsNumber r * columnsNumber r] (\<lambda>elementIndex h'.
                          andThen (load h' matrix_1 elementIndex) (\<lambda>x.
                          andThen (load h' matrix_2 elementIndex) (\<lambda>y.
                            store h' result elementIndex (weight_1 * x + weight_2 * y)))) h2)
                 (\<lambda>h3. Inr (result, h3)))))))))"

definition Mat_Transpose :: "'a::zero heap \<Rightarrow> Matrix \<Rightarrow> Matrix \<Rightarrow> fault + (Matrix \<times> 'a heap)" where
  "Mat_Transpose h matrix result = (case matrix of None \<Rightarrow> Inr (None, h)
     | Some a \<Rightarrow>
         andThen (deref h matrix) (\<lambda>m0.
         andThen (assign h result (\<lambda>r'. r'\<lparr>rowsNumber := columnsNumber m0\<rparr>)) (\<lambda>h1.
         andThen (deref h1 matrix) (\<lambda>m1.
         andThen (assign h1 result (\<lambda>r'. r'\<lparr>columnsNumber := rowsNumber m1\<rparr>)) (\<lambda>h2.
         andThen (deref h2 result) (\<lambda>r.
         andThen (deref h2 matrix) (\<lambda>m.
         andThen (for_each [0..<rowsNumber r] (\<lambda>row.
                    for_each [0..<columnsNumber r] (\<lambda>column aux.
                      andThen (load h2 matrix (row * rowsNumber m + column)) (\<lambda>v.
                        scratch_write aux (column * rowsNumber r + row) v))) (\<lambda>_. 0)) (\<lambda>auxArray.
         andThen (scratch_block auxArray (rowsNumber r * columnsNumber r)) (\<lambda>block.
         andThen (memcpy (data r) block (rowsNumber r * columnsNumber r)) (\<lambda>d.
         andThen (assign h2 result (\<lambda>r'. r'\<lparr>data := d\<rparr>)) (\<lambda>h3.
           Inr (result, h3))))))))))))"

section \<open>External numerical kernels\<close>

text \<open>
  \<^verbatim>\<open>dgemm_\<close>, \<^verbatim>\<open>dgetrf_\<close> and \<^verbatim>\<open>dgetri_\<close> are BLAS and LAPACK routines, declared
  \<^verbatim>\<open>extern\<close> in matrix.c. They are parameters of the functions that call them:
  \<^item> \<open>dgemm tA tB m n k alpha A ldA B ldB beta ldC\<close> is the \<open>m * n\<close> block it writes to \<open>C\<close>;
  \<^item> \<open>dgetrf M N A ldA\<close> is the factored block, the pivot array and \<^verbatim>\<open>INFO\<close>;
  \<^item> \<open>dgetri N A ldA IPIV lwork\<close> is the inverted block and \<^verbatim>\<open>INFO\<close>.
  The two LAPACK routines work in place on the first \<open>M * N\<close> elements of a buffer and
  leave the rest of it alone. \<^verbatim>\<open>dgetrf_\<close> writes \<open>min M N\<close> pivots into \<^verbatim>\<open>pivotArray\<close>,
  which has \<open>MATRIX_SIZE_MAX\<close> entries.
\<close>

type_synonym 'a dgemm =
  "char \<Rightarrow> char \<Rightarrow> nat \<Rightarrow> nat \<Rightarrow> nat \<Rightarrow> 'a \<Rightarrow> 'a list \<Rightarrow> nat \<Rightarrow> 'a list \<Rightarrow> nat \<Rightarrow> 'a \<Rightarrow> nat \<Rightarrow> 'a list"

type_synonym 'a dgetrf = "nat \<Rightarrow> nat \<Rightarrow> 'a list \<Rightarrow> nat \<Rightarrow> 'a list \<times> int list \<times> int"

type_synonym 'a dgetri = "nat \<Rightarrow> 'a list \<Rightarrow> nat \<Rightarrow> int list \<Rightarrow> nat \<Rightarrow> 'a list \<times> int"

definition overwrite :: "'a list \<Rightarrow> 'a list \<Rightarrow> nat \<Rightarrow> 'a list" where
  "overwrite buf out n = take n (out @ drop (length out) buf) @ drop n buf"

definition call_dgetrf :: "'a dgetrf \<Rightarrow> nat \<Rightarrow> nat \<Rightarrow> 'a list \<Rightarrow> fault + ('a list \<times> int list \<times> int)" where
  "call_dgetrf dgetrf m n buf =
     (if min m n \<le> MATRIX_SIZE_MAX \<and> m * n \<le> length buf
      then (case dgetrf m n (take (m * n) buf) m of
              (lu, ipiv, info) \<Rightarrow> Inr (overwrite buf lu (m * n), ipiv, info))
      else Inl OutOfBounds)"

definition call_dgetri :: "'a dgetri \<Rightarrow> nat \<Rightarrow> 'a list \<Rightarrow> int list \<Rightarrow> nat \<Rightarrow> fault + ('a list \<times> int)" where
  "call_dgetri dgetri n buf ipiv lwork =
     (if lwork \<le> MATRIX_SIZE_MAX * MATRIX_SIZE_MAX \<and> n * n \<le> length buf
      then (case dgetri n (take (n * n) buf) n ipiv lwork of
              (out, info) \<Rightarrow> Inr (overwrite buf out (n * n), info))
      else Inl OutOfBounds)"

definition Mat_Dot :: "'a::{zero,one} dgemm \<Rightarrow> 'a heap \<Rightarrow> Matrix \<Rightarrow> char \<Rightarrow> Matrix \<Rightarrow> char \<Rightarrow> Matrix
    \<Rightarrow> fault + (Matrix \<times> 'a heap)" where
  "Mat_Dot dgemm h matrix_1 transpose_1 matrix_2 transpose_2 result =
     (if matrix_1 = None \<or> matrix_2 = None then Inr (None, h)
      else andThen (deref h matrix_1) (\<lambda>m1.
           andThen (deref h matrix_2) (\<lambda>m2.
             let couplingLength =
                   (if transpose_1 = MATRIX_TRANSPOSE then rowsNumber m1 else columnsNumber m1)
             in if couplingLength \<noteq>
                     (if transpose_2 = MATRIX_TRANSPOSE then columnsNumber m2 else rowsNumber m2)
                then Inr (None, h)
                else
                  andThen (assign h result (\<lambda>r'. r'\<lparr>rowsNumber :=
                      (if transpose_1 = MATRIX_TRANSPOSE then columnsNumber m1 else rowsNumber m1)\<rparr>)) (\<lambda>h1.
                  andThen (deref h1 matrix_2) (\<lambda>m2'.
                  andThen (assign h1 result (\<lambda>r'. r'\<lparr>columnsNumber :=
                      (if transpose_2 = MATRIX_TRANSPOSE then rowsNumber m2' else columnsNumber m2')\<rparr>)) (\<lambda>h2.
                  andThen (deref h2 result) (\<lambda>r.
                  andThen (deref h2 matrix_1) (\<lambda>a.
                  andThen (deref h2 matrix_2) (\<lambda>b.
                    let stride_1 = (if transpose_1 = MATRIX_TRANSPOSE then couplingLength else rowsNumber r);
                        stride_2 = (if transpose_2 = MATRIX_TRANSPOSE then columnsNumber r else couplingLength);
                        product = dgemm transpose_1 transpose_2 (rowsNumber r) (columnsNumber r)
                                    couplingLength 1 (data a) stride_1 (data b) stride_2 0 (rowsNumber r)
                    in andThen (scratch_copy product (rowsNumber r * columnsNumber r)) (\<lambda>auxArray.
                       andThen (memcpy (data r) auxArray (rowsNumber r * columnsNumber r)) (\<lambda>d.
                       andThen (assign h2 result (\<lambda>r'. r'\<lparr>data := d\<rparr>)) (\<lambda>h3.
                         Inr (result, h3)))))))))))))"

text \<open>
  In \<open>Mat_Determinant\<close> the test \<^verbatim>\<open>pivotArray[ pivotIndex ] != pivotIndex\<close> compares an
  \<^verbatim>\<open>int\<close> with a \<^verbatim>\<open>size_t\<close>; for the indices below \<open>MATRIX_SIZE_MAX\<close> it holds exactly when
  the two differ as integers.
\<close>

definition Mat_Determinant :: "'a::{zero,one,times,uminus} dgetrf \<Rightarrow> 'a heap \<Rightarrow> Matrix \<Rightarrow> fault + 'a" where
  "Mat_Determinant dgetrf h matrix = (case matrix of None \<Rightarrow> Inr 0
     | Some a \<Rightarrow> andThen (deref h matrix) (\<lambda>m.
         if rowsNumber m \<noteq> columnsNumber m then Inr 0
         else
           andThen (scratch_copy (data m) (rowsNumber m * columnsNumber m)) (\<lambda>copied.
           andThen (call_dgetrf dgetrf (rowsNumber m) (columnsNumber m) copied) (\<lambda>(auxArray, pivotArray, info).
             for_each [0..<rowsNumber m] (\<lambda>pivotIndex determinant.
               andThen (read_arr auxArray (pivotIndex * rowsNumber m + pivotIndex)) (\<lambda>u.
               andThen (read_arr pivotArray pivotIndex) (\<lambda>p.
                 Inr (if p \<noteq> int pivotIndex then (determinant * u) * (- 1) else determinant * u))))
               1))))"

definition Mat_Inverse :: "'a dgetrf \<Rightarrow> 'a dgetri \<Rightarrow> 'a heap \<Rightarrow> Matrix \<Rightarrow> Matrix \<Rightarrow> fault + (Matrix \<times> 'a heap)" where
  "Mat_Inverse dgetrf dgetri h matrix result =
     (if matrix = None \<or> result = None then Inr (None, h)
      else andThen (deref h matrix) (\<lambda>m.
        if rowsNumber m \<noteq> columnsNumber m then Inr (None, h)
        else
          andThen (if matrix \<noteq> result
                   then andThen (assign h result (\<lambda>r'. r'\<lparr>rowsNumber := rowsNumber m\<rparr>)) (\<lambda>h1.
                        andThen (deref h1 matrix) (\<lambda>m1.
                        andThen (assign h1 result (\<lambda>r'. r'\<lparr>columnsNumber := columnsNumber m1\<rparr>)) (\<lambda>h2.
                        andThen (deref h2 matrix) (\<lambda>m2.
                        andThen (deref h2 result) (\<lambda>r.
                        andThen (memcpy (data r) (data m2) (rowsNumber m2 * columnsNumber m2)) (\<lambda>d.
                          assign h2 result (\<lambda>r'. r'\<lparr>data := d\<rparr>)))))))
                   else Inr h) (\<lambda>h3.
          andThen (deref h3 result) (\<lambda>r.
          andThen (call_dgetrf dgetrf (rowsNumber r) (columnsNumber r) (data r)) (\<lambda>(lu, pivotArray, info).
          andThen (assign h3 result (\<lambda>r'. r'\<lparr>data := lu\<rparr>)) (\<lambda>h4.
            if info \<noteq> 0 then Inr (None, h4)
            else
              let workLength = rowsNumber r * columnsNumber r
              in andThen (call_dgetri dgetri (rowsNumber r) lu pivotArray workLength) (\<lambda>(inverted, info').
                 andThen (assign h4 result (\<lambda>r'. r'\<lparr>data := inverted\<rparr>)) (\<lambda>h5.
                   if info' \<noteq> 0 then Inr (None, h5) else Inr (result, h5)))))))))"

section \<open>Notions used in the statements\<close>

text \<open>
  \<open>transposed R C src\<close> is what the staging loop of \<open>Mat_Transpose\<close> leaves in the first
  \<open>C * R\<close> cells of its scratch array for a source of \<open>R\<close> rows and \<open>C\<close> columns with
  buffer \<open>src\<close>. \<open>lapack_inverse\<close> is the effect of the two kernel calls of \<open>Mat_Inverse\<close>
  on a buffer, with whether both reported \<^verbatim>\<open>INFO\<close> 0. \<open>identity_data n\<close> is the buffer
  that \<open>Mat_CreateSquare\<close> fills for the identity of order \<open>n\<close>. Two matrices are equal
  when they have the same dimensions and the same elements.
\<close>

definition transposed :: "nat \<Rightarrow> nat \<Rightarrow> 'a::zero list \<Rightarrow> 'a list" where
  "transposed R C src =
     map (fold (\<lambda>p aux. aux(snd p * C + fst p := src ! (fst p * R + snd p)))
            (List.product [0..<C] [0..<R]) (\<lambda>_. 0)) [0..<C * R]"

definition lapack_inverse :: "'a dgetrf \<Rightarrow> 'a dgetri \<Rightarrow> nat \<Rightarrow> 'a list \<Rightarrow> 'a list \<times> bool" where
  "lapack_inverse dgetrf dgetri n buf =
     (case dgetrf n n (take (n * n) buf) n of
        (lu, ipiv, info) \<Rightarrow>
          if info \<noteq> 0 then (overwrite buf lu (n * n), False)
          else (case dgetri n (take (n * n) (overwrite buf lu (n * n))) n ipiv (n * n) of
                  (out, info') \<Rightarrow> (overwrite (overwrite buf lu (n * n)) out (n * n), info' = 0)))"

definition identity_data :: "nat \<Rightarrow> 'a::{zero,one} list" where
  "identity_data n = fold (\<lambda>line d. d[line * n + line := 1]) [0..<n] (replicate (n * n) 0)"

definition equal_matrices :: "'a MatrixData \<Rightarrow> 'a MatrixData \<Rightarrow> bool" where
  "equal_matrices x y \<longleftrightarrow>
     rowsNumber x = rowsNumber y \<and> columnsNumber x = columnsNumber y
     \<and> take (rowsNumber x * columnsNumber x) (data x) = take (rowsNumber y * columnsNumber y) (data y)"

text \<open>
  What \<^verbatim>\<open>dgetrf_\<close> returns for an identity matrix, by LAPACK's contract: the factors are
  the matrix itself, no rows are interchanged, so the pivot of row \<open>i\<close> is \<open>i\<close>, counted
  from 1 as Fortran does, and \<^verbatim>\<open>INFO\<close> is 0.
\<close>

definition lu_of_identity :: "'a dgetrf" where
  "lu_of_identity M N A ldA = (A, map (\<lambda>i. int i + 1) [0..<min M N], 0)"

section \<open>Evaluation and arithmetic facts\<close>

lemma andThen_simps [simp]: "andThen (Inl e) f = Inl e" "andThen (Inr x) f = f x"
  by (simp_all add: andThen_def)

lemma upt_eval: "[0..<numeral n] = 0 # [Suc 0..<numeral n]"
  "[Suc m..<numeral n] = (if Suc m < numeral n then Suc m # [Suc (Suc m)..<numeral n] else [])"
   apply (rule upt_rec [of 0 "numeral n", simplified])
  apply (rule upt_rec)
  done

lemma replicate_numeral: "replicate (numeral k) x = x # replicate (pred_numeral k) x"
  by (simp add: numeral_eq_Suc)

lemmas prim_defs = deref_def assign_def load_def store_def read_arr_def write_arr_def read_ptr_def write_ptr_def
  memset0_def memcpy_def realloc_def scratch_copy_def scratch_write_def scratch_block_def MATRIX_SIZE_MAX_def

lemma cell_index_less: "row < R \<Longrightarrow> col < C \<Longrightarrow> col * R + row < R * (C::nat)"
proof -
  assume a: "row < R" "col < C"
  then have "col * R + row < col * R + R" by simp
  also have "\<dots> = Suc col * R" by simp
  also have "\<dots> \<le> C * R" using a(2) by (intro mult_le_mono1) simp
  finally show ?thesis by (simp add: mult.commute)
qed

lemma cell_index_inj:
  assumes "row < R" "row' < R" "col * R + row = col' * R + (row'::nat)"
  shows "col = col' \<and> row = row'"
proof -
  have "(col * R + row) div R = col" "(col * R + row) mod R = row" using assms(1) by simp_all
  moreover have "(col' * R + row') div R = col'" "(col' * R + row') mod R = row'" using assms(2) by simp_all
  ultimately show ?thesis using assms(3) by metis
qed

section \<open>Loops\<close>

lemma for_each_append:
  "for_each (xs @ ys) body s = andThen (for_each xs body s) (for_each ys body)"
proof (induction xs arbitrary: s)
  case Nil
  show ?case by simp
next
  case (Cons x xs)
  show ?case
  proof (cases "body x s")
    case (Inl e)
    then show ?thesis by simp
  next
    case (Inr s')
    then show ?thesis using Cons.IH [of s'] by simp
  qed
qed

lemma for_each_map: "for_each (map g xs) body s = for_each xs (\<lambda>x. body (g x)) s"
proof (induction xs arbitrary: s)
  case Nil
  show ?case by simp
next
  case (Cons x xs)
  show ?case by (cases "body (g x) s") (simp_all add: Cons.IH)
qed

lemma for_each_nested:
  "for_each xs (\<lambda>x. for_each ys (body x)) s
     = for_each (List.product xs ys) (\<lambda>p. body (fst p) (snd p)) s"
proof (induction xs arbitrary: s)
  case Nil
  show ?case by simp
next
  case (Cons x xs)
  show ?case
    by (cases "for_each ys (body x) s") (simp_all add: for_each_append for_each_map Cons.IH)
qed

lemma for_each_invariant:
  assumes "for_each xs body s = Inr s'" and "P s"
    and "\<And>i t t'. i \<in> set xs \<Longrightarrow> P t \<Longrightarrow> body i t = Inr t' \<Longrightarrow> P t'"
  shows "P s'"
  using assms
proof (induction xs arbitrary: s)
  case Nil
  then show ?case by simp
next
  case (Cons x xs)
  from Cons.prems(1) obtain t where t: "body x s = Inr t" "for_each xs body t = Inr s'"
    by (cases "body x s") simp_all
  have "P t"
    using _ Cons.prems(2) t(1) by (rule Cons.prems(3)) simp
  moreover have "P u'" if "i \<in> set xs" "P u" "body i u = Inr u'" for i u u'
    using _ that(2,3) by (rule Cons.prems(3)) (simp add: that(1))
  ultimately show ?case
    using t(2) by (intro Cons.IH [of t]) blast+
qed

text \<open>A list after a sequence of indexed writes.\<close>

lemma length_fold_update [simp]:
  "length (fold (\<lambda>i d. d[dst i := f i]) xs d) = length d"
  by (induction xs arbitrary: d) simp_all

lemma fold_update_other:
  "j \<notin> dst ` set xs \<Longrightarrow> fold (\<lambda>i d. d[dst i := f i]) xs d ! j = d ! j"
  by (induction xs arbitrary: d) auto

lemma fold_update_hit:
  "inj_on dst (set xs) \<Longrightarrow> i \<in> set xs \<Longrightarrow> dst i < length d
     \<Longrightarrow> fold (\<lambda>i d. d[dst i := f i]) xs d ! dst i = f i"
proof (induction xs arbitrary: d)
  case Nil
  then show ?case by simp
next
  case (Cons x xs)
  show ?case
  proof (cases "i \<in> set xs")
    case True
    then show ?thesis using Cons by simp
  next
    case False
    then have ix: "i = x" using Cons.prems(2) by simp
    have "dst x \<notin> dst ` set xs"
      using Cons.prems(1) False ix by (auto simp add: inj_on_def)
    then show ?thesis
      using Cons.prems(3) ix by (simp add: fold_update_other)
  qed
qed

lemma store_loop:
  assumes "a < length h"
    and "\<And>i. i \<in> set xs \<Longrightarrow> src i = Inr (f i)"
    and "\<And>i. i \<in> set xs \<Longrightarrow> dst i < length (data (h ! a))"
  shows "for_each xs (\<lambda>i h'. andThen (src i) (\<lambda>v. store h' (Some a) (dst i) v)) h
           = Inr (h[a := (h ! a)\<lparr>data := fold (\<lambda>i d. d[dst i := f i]) xs (data (h ! a))\<rparr>])"
  using assms
proof (induction xs arbitrary: h)
  case Nil
  then show ?case by simp
next
  case (Cons x xs)
  let ?h1 = "h[a := (h ! a)\<lparr>data := (data (h ! a))[dst x := f x]\<rparr>]"
  have step: "andThen (src x) (\<lambda>v. store h (Some a) (dst x) v) = Inr ?h1"
    using Cons.prems by (simp add: prim_defs)
  have "for_each xs (\<lambda>i h'. andThen (src i) (\<lambda>v. store h' (Some a) (dst i) v)) ?h1
          = Inr (?h1[a := (?h1 ! a)\<lparr>data := fold (\<lambda>i d. d[dst i := f i]) xs (data (?h1 ! a))\<rparr>])"
    using Cons.prems by (intro Cons.IH) simp_all
  then show ?case
    using step Cons.prems(1) by simp
qed

lemma write_ptr_loop:
  assumes "\<And>i. i \<in> set xs \<Longrightarrow> src i = Inr (f i)"
    and "\<And>i. i \<in> set xs \<Longrightarrow> dst i < length buf"
  shows "for_each xs (\<lambda>i b. andThen (src i) (\<lambda>v. write_ptr b (dst i) v)) (Some buf)
           = Inr (Some (fold (\<lambda>i d. d[dst i := f i]) xs buf))"
  using assms
proof (induction xs arbitrary: buf)
  case Nil
  then show ?case by simp
next
  case (Cons x xs)
  have step: "andThen (src x) (\<lambda>v. write_ptr (Some buf) (dst x) v) = Inr (Some (buf[dst x := f x]))"
    using Cons.prems by (simp add: prim_defs)
  have "for_each xs (\<lambda>i b. andThen (src i) (\<lambda>v. write_ptr b (dst i) v)) (Some (buf[dst x := f x]))
          = Inr (Some (fold (\<lambda>i d. d[dst i := f i]) xs (buf[dst x := f x])))"
    using Cons.prems by (intro Cons.IH) simp_all
  then show ?case using step by simp
qed

lemma cell_index_inj_on:
  "inj_on (\<lambda>p. fst p * R + snd p) (set (List.product [0..<C] [0..<R]))"
  by (auto simp add: inj_on_def dest: cell_index_inj)

section \<open>Element access\<close>

text \<open>
  C10. For a non-null matrix whose buffer holds its \<open>rowsNumber * columnsNumber\<close> elements
  and a position inside its dimensions, \<open>Mat_SetElement\<close> followed by \<open>Mat_GetElement\<close> at
  that position returns the value written; the dimensions, the element at every other
  position and every other matrix of the heap are as before.
\<close>

theorem set_then_get_element:
  fixes h :: "'a::zero heap"
  assumes "a < length h"
    and "rowsNumber (h ! a) * columnsNumber (h ! a) \<le> length (data (h ! a))"
    and "row < rowsNumber (h ! a)" and "col < columnsNumber (h ! a)"
  shows "\<exists>h'. Mat_SetElement h (Some a) row col v = Inr h'
           \<and> Mat_GetElement h' (Some a) row col = Inr v
           \<and> rowsNumber (h' ! a) = rowsNumber (h ! a)
           \<and> columnsNumber (h' ! a) = columnsNumber (h ! a)
           \<and> (\<forall>row' col'. (row', col') \<noteq> (row, col) \<longrightarrow>
                 Mat_GetElement h' (Some a) row' col' = Mat_GetElement h (Some a) row' col')
           \<and> length h' = length h \<and> (\<forall>b. b \<noteq> a \<longrightarrow> h' ! b = h ! b)"
proof -
  let ?m = "h ! a"
  let ?i = "col * rowsNumber ?m + row"
  let ?h' = "h[a := ?m\<lparr>data := (data ?m)[?i := v]\<rparr>]"
  have i: "?i < length (data ?m)"
    using cell_index_less [OF assms(3) assms(4)] assms(2) by simp
  have set: "Mat_SetElement h (Some a) row col v = Inr ?h'"
    using assms i by (simp add: Mat_SetElement_def prim_defs)
  have get: "Mat_GetElement ?h' (Some a) row col = Inr v"
    using assms i by (simp add: Mat_GetElement_def prim_defs)
  have other: "Mat_GetElement ?h' (Some a) row' col' = Mat_GetElement h (Some a) row' col'"
    if "(row', col') \<noteq> (row, col)" for row' col'
  proof (cases "row' < rowsNumber ?m \<and> col' < columnsNumber ?m")
    case True
    then have "col' * rowsNumber ?m + row' \<noteq> ?i"
      using cell_index_inj [of row' "rowsNumber ?m" row col' col] assms(3) that by auto
    then show ?thesis
      using assms(1) True by (simp add: Mat_GetElement_def prim_defs)
  next
    case False
    then show ?thesis
      using assms(1) by (auto simp add: Mat_GetElement_def prim_defs)
  qed
  show ?thesis
    using set get other assms(1) by (intro exI [of _ ?h']) simp
qed

theorem set_then_get_element_witness:
  "\<exists>h'. Mat_SetElement [\<lparr>data = [1, 2, 3, 4 :: real], rowsNumber = 2, columnsNumber = 2\<rparr>] (Some 0) 1 0 9 = Inr h'
      \<and> Mat_GetElement h' (Some 0) 1 0 = Inr 9
      \<and> Mat_GetElement h' (Some 0) 0 1 = Inr 3"
proof -
  let ?h = "[\<lparr>data = [1, 2, 3, 4 :: real], rowsNumber = 2, columnsNumber = 2\<rparr>]"
  have orig: "Mat_GetElement ?h (Some 0) 0 1 = Inr 3"
    by (simp add: Mat_GetElement_def prim_defs)
  from set_then_get_element [of 0 ?h 1 0 9]
  obtain h' where h': "Mat_SetElement ?h (Some 0) 1 0 9 = Inr h'"
      "Mat_GetElement h' (Some 0) 1 0 = Inr 9"
      "\<forall>row' col'. (row', col') \<noteq> (1, 0) \<longrightarrow>
         Mat_GetElement h' (Some 0) row' col' = Mat_GetElement ?h (Some 0) row' col'"
    by auto
  from h'(3) have "Mat_GetElement h' (Some 0) 0 1 = Mat_GetElement ?h (Some 0) 0 1"
    by simp
  with h'(1,2) orig show ?thesis by auto
qed

section \<open>Bulk import and export\<close>

lemma Mat_SetData_result:
  assumes "a < length h"
    and "rowsNumber (h ! a) * columnsNumber (h ! a) \<le> length (data (h ! a))"
    and "rowsNumber (h ! a) * columnsNumber (h ! a) \<le> length X"
  shows "Mat_SetData h (Some a) (Some X)
           = Inr (h[a := (h ! a)\<lparr>data :=
                   fold (\<lambda>p d. d[fst p * rowsNumber (h ! a) + snd p
                                  := X ! (snd p * columnsNumber (h ! a) + fst p)])
                     (List.product [0..<columnsNumber (h ! a)] [0..<rowsNumber (h ! a)])
                     (data (h ! a))\<rparr>])"
proof -
  let ?R = "rowsNumber (h ! a)" and ?C = "columnsNumber (h ! a)"
  let ?ps = "List.product [0..<?C] [0..<?R]"
  have src: "read_ptr (Some X) (snd p * ?C + fst p) = Inr (X ! (snd p * ?C + fst p))"
    if "p \<in> set ?ps" for p
  proof -
    have "snd p * ?C + fst p < ?C * ?R"
      using that by (intro cell_index_less) auto
    then show ?thesis using assms(3) by (simp add: read_ptr_def read_arr_def mult.commute)
  qed
  have dst: "fst p * ?R + snd p < length (data (h ! a))" if "p \<in> set ?ps" for p
  proof -
    have "fst p * ?R + snd p < ?R * ?C"
      using that by (intro cell_index_less) auto
    then show ?thesis using assms(2) by simp
  qed
  have "for_each ?ps (\<lambda>p h'. andThen (read_ptr (Some X) (snd p * ?C + fst p))
            (\<lambda>v. store h' (Some a) (fst p * ?R + snd p) v)) h
          = Inr (h[a := (h ! a)\<lparr>data :=
                  fold (\<lambda>p d. d[fst p * ?R + snd p := X ! (snd p * ?C + fst p)]) ?ps (data (h ! a))\<rparr>])"
    using assms(1) src dst by (rule store_loop)
  then show ?thesis
    using assms(1) by (simp add: Mat_SetData_def deref_def for_each_nested)
qed

lemma Mat_GetData_result:
  assumes "a < length h"
    and "rowsNumber (h ! a) * columnsNumber (h ! a) \<le> length (data (h ! a))"
    and "rowsNumber (h ! a) * columnsNumber (h ! a) \<le> length buf"
  shows "Mat_GetData h (Some a) (Some buf)
           = Inr (Some (fold (\<lambda>p d. d[fst p * columnsNumber (h ! a) + snd p
                                       := data (h ! a) ! (snd p * rowsNumber (h ! a) + fst p)])
                          (List.product [0..<rowsNumber (h ! a)] [0..<columnsNumber (h ! a)]) buf))"
proof -
  let ?R = "rowsNumber (h ! a)" and ?C = "columnsNumber (h ! a)"
  let ?ps = "List.product [0..<?R] [0..<?C]"
  have src: "load h (Some a) (snd p * ?R + fst p) = Inr (data (h ! a) ! (snd p * ?R + fst p))"
    if "p \<in> set ?ps" for p
  proof -
    have "snd p * ?R + fst p < ?R * ?C"
      using that by (intro cell_index_less) auto
    then show ?thesis using assms(1,2) by (simp add: load_def deref_def read_arr_def)
  qed
  have dst: "fst p * ?C + snd p < length buf" if "p \<in> set ?ps" for p
  proof -
    have "fst p * ?C + snd p < ?C * ?R"
      using that by (intro cell_index_less) auto
    then show ?thesis using assms(3) by (simp add: mult.commute)
  qed
  have "for_each ?ps (\<lambda>p b. andThen (load h (Some a) (snd p * ?R + fst p))
            (\<lambda>v. write_ptr b (fst p * ?C + snd p) v)) (Some buf)
          = Inr (Some (fold (\<lambda>p d. d[fst p * ?C + snd p := data (h ! a) ! (snd p * ?R + fst p)])
                         ?ps buf))"
    using src dst by (rule write_ptr_loop)
  then show ?thesis
    using assms(1) by (simp add: Mat_GetData_def deref_def for_each_nested)
qed

lemma store_keeps_dimensions:
  assumes "store h p i v = Inr h'"
  shows "length h' = length h \<and> rowsNumber (h' ! b) = rowsNumber (h ! b)
       \<and> columnsNumber (h' ! b) = columnsNumber (h ! b)"
  using assms
  by (cases p)
    (auto simp add: store_def deref_def assign_def write_arr_def nth_list_update split: if_splits)

lemma Mat_SetData_keeps_dimensions:
  assumes "Mat_SetData h matrix dat = Inr h'"
  shows "length h' = length h \<and> rowsNumber (h' ! b) = rowsNumber (h ! b)
       \<and> columnsNumber (h' ! b) = columnsNumber (h ! b)"
proof (cases matrix)
  case None
  then show ?thesis using assms by (simp add: Mat_SetData_def)
next
  case (Some a)
  let ?P = "\<lambda>t. length t = length h \<and> rowsNumber (t ! b) = rowsNumber (h ! b)
       \<and> columnsNumber (t ! b) = columnsNumber (h ! b)"
  from assms Some obtain m where m: "deref h matrix = Inr m"
    by (cases "deref h matrix") (simp_all add: Mat_SetData_def)
  let ?ps = "List.product [0..<columnsNumber m] [0..<rowsNumber m]"
  let ?body = "\<lambda>p h'. andThen (read_ptr dat (snd p * columnsNumber m + fst p))
                 (\<lambda>v. store h' matrix (fst p * rowsNumber m + snd p) v)"
  have loop: "for_each ?ps ?body h = Inr h'"
    using assms Some m by (simp add: Mat_SetData_def for_each_nested)
  have step: "?P t'" if "?P t" "?body p t = Inr t'" for p t t'
  proof -
    from that(2) obtain v where "store t matrix (fst p * rowsNumber m + snd p) v = Inr t'"
      by (cases "read_ptr dat (snd p * columnsNumber m + fst p)") simp_all
    then show ?thesis using store_keeps_dimensions [of t matrix _ v t' b] that(1) by simp
  qed
  show ?thesis
    using loop by (rule for_each_invariant [where P = ?P]) (simp, rule step)
qed

text \<open>
  C8. For a non-null matrix whose buffer holds its \<open>rowsNumber * columnsNumber\<close> elements,
  an array \<open>X\<close> of that many elements and a buffer of at least that many, \<open>Mat_SetData\<close>
  followed by \<open>Mat_GetData\<close> succeeds and leaves in the buffer exactly the elements of \<open>X\<close>,
  in the same order; the rest of the buffer and the dimensions are untouched.
\<close>

theorem set_data_get_data_roundtrip:
  assumes "a < length h"
    and "rowsNumber (h ! a) * columnsNumber (h ! a) \<le> length (data (h ! a))"
    and "length X = rowsNumber (h ! a) * columnsNumber (h ! a)"
    and "rowsNumber (h ! a) * columnsNumber (h ! a) \<le> length buf"
  shows "\<exists>h' buf'. Mat_SetData h (Some a) (Some X) = Inr h'
           \<and> Mat_GetData h' (Some a) (Some buf) = Inr (Some buf')
           \<and> take (rowsNumber (h ! a) * columnsNumber (h ! a)) buf' = X
           \<and> drop (rowsNumber (h ! a) * columnsNumber (h ! a)) buf'
               = drop (rowsNumber (h ! a) * columnsNumber (h ! a)) buf
           \<and> rowsNumber (h' ! a) = rowsNumber (h ! a)
           \<and> columnsNumber (h' ! a) = columnsNumber (h ! a)"
proof -
  let ?R = "rowsNumber (h ! a)" and ?C = "columnsNumber (h ! a)"
  let ?cr = "List.product [0..<?C] [0..<?R]" and ?rc = "List.product [0..<?R] [0..<?C]"
  let ?D = "fold (\<lambda>p d. d[fst p * ?R + snd p := X ! (snd p * ?C + fst p)]) ?cr (data (h ! a))"
  let ?h' = "h[a := (h ! a)\<lparr>data := ?D\<rparr>]"
  let ?B = "fold (\<lambda>p d. d[fst p * ?C + snd p := ?D ! (snd p * ?R + fst p)]) ?rc buf"
  have set: "Mat_SetData h (Some a) (Some X) = Inr ?h'"
    using assms by (intro Mat_SetData_result) simp_all
  have cell: "?h' ! a = (h ! a)\<lparr>data := ?D\<rparr>"
    using assms(1) by simp
  have get: "Mat_GetData ?h' (Some a) (Some buf) = Inr (Some ?B)"
    using Mat_GetData_result [of a ?h' buf] assms(1,2,4) by (simp add: cell)
  have stored: "?D ! (c * ?R + r) = X ! (r * ?C + c)" if "r < ?R" "c < ?C" for r c
  proof -
    have "c * ?R + r < length (data (h ! a))"
      using cell_index_less [OF that] assms(2) by simp
    moreover have "(c, r) \<in> set ?cr" using that by simp
    ultimately show ?thesis
      using fold_update_hit [where dst = "\<lambda>p. fst p * ?R + snd p" and xs = ?cr and i = "(c, r)"
          and d = "data (h ! a)" and f = "\<lambda>p. X ! (snd p * ?C + fst p)", OF cell_index_inj_on]
      by simp
  qed
  have read: "?B ! (r * ?C + c) = X ! (r * ?C + c)" if "r < ?R" "c < ?C" for r c
  proof -
    have "r * ?C + c < length buf"
      using cell_index_less [OF that(2) that(1)] assms(4) by (simp add: mult.commute)
    moreover have "(r, c) \<in> set ?rc" using that by simp
    ultimately have "?B ! (r * ?C + c) = ?D ! (c * ?R + r)"
      using fold_update_hit [where dst = "\<lambda>p. fst p * ?C + snd p" and xs = ?rc and i = "(r, c)"
          and d = buf and f = "\<lambda>p. ?D ! (snd p * ?R + fst p)", OF cell_index_inj_on]
      by simp
    then show ?thesis using stored [OF that] by simp
  qed
  have low: "?B ! j = X ! j" if "j < ?R * ?C" for j
  proof -
    have C: "0 < ?C" using that by (cases "?C = 0") simp_all
    have "j div ?C < ?R" using that C by (simp add: less_mult_imp_div_less)
    moreover have "j mod ?C < ?C" using C by simp
    ultimately have "?B ! (j div ?C * ?C + j mod ?C) = X ! (j div ?C * ?C + j mod ?C)"
      by (rule read)
    then show ?thesis by simp
  qed
  have high: "?B ! j = buf ! j" if "?R * ?C \<le> j" for j
  proof -
    have "j \<notin> (\<lambda>p. fst p * ?C + snd p) ` set ?rc"
    proof
      assume "j \<in> (\<lambda>p. fst p * ?C + snd p) ` set ?rc"
      then obtain r c where "r < ?R" "c < ?C" "j = r * ?C + c" by auto
      then show False
        using cell_index_less [of c ?C r ?R] that by (simp add: mult.commute)
    qed
    then show ?thesis by (rule fold_update_other)
  qed
  have take: "take (?R * ?C) ?B = X"
    using assms(3,4) low by (intro nth_equalityI) simp_all
  have drop: "drop (?R * ?C) ?B = drop (?R * ?C) buf"
    using high by (intro nth_equalityI) simp_all
  show ?thesis
    using set get take drop cell by (intro exI [of _ ?h'] exI [of _ ?B]) simp
qed

theorem set_data_get_data_roundtrip_witness:
  "\<exists>h' buf'. Mat_SetData [\<lparr>data = [0, 0, 0, 0, 0, 0 :: real], rowsNumber = 2, columnsNumber = 3\<rparr>]
                 (Some 0) (Some [1, 2, 3, 4, 5, 6]) = Inr h'
      \<and> Mat_GetData h' (Some 0) (Some [9, 9, 9, 9, 9, 9, 9]) = Inr (Some buf')
      \<and> take 6 buf' = [1, 2, 3, 4, 5, 6] \<and> drop 6 buf' = [9]
      \<and> rowsNumber (h' ! 0) = 2 \<and> columnsNumber (h' ! 0) = 3"
  using set_data_get_data_roundtrip
    [of 0 "[\<lparr>data = [0, 0, 0, 0, 0, 0 :: real], rowsNumber = 2, columnsNumber = 3\<rparr>]"
        "[1, 2, 3, 4, 5, 6]" "[9, 9, 9, 9, 9, 9, 9]"]
  by simp

section \<open>Capacity limit\<close>

text \<open>
  C1. Requests of more than \<open>MATRIX_SIZE_MAX\<close> elements do not fail. \<open>Mat_Create\<close> and
  \<open>Mat_CreateSquare\<close> return a matrix of 2601 elements for 51 rows and 51 columns, and
  \<open>Mat_Resize\<close> of a 1 by 1 matrix to 2501 rows and 1 column returns it with the 2501
  elements: the guard of \<open>Mat_Create\<close> compares each dimension with the limit, and the
  resizing of an existing matrix compares nothing.
\<close>

theorem capacity_limit_not_enforced:
  "MATRIX_SIZE_MAX < 51 * 51 \<and> MATRIX_SIZE_MAX < 2501 * 1
   \<and> Mat_Create ([] :: real heap) None 51 51
     = Inr (Some 0, [\<lparr>data = replicate 2601 0, rowsNumber = 51, columnsNumber = 51\<rparr>])
   \<and> Mat_CreateSquare ([] :: real heap) 51 (CHR ''0'')
     = Inr (Some 0, [\<lparr>data = replicate 2601 0, rowsNumber = 51, columnsNumber = 51\<rparr>])
   \<and> Mat_Resize [\<lparr>data = [7 :: real], rowsNumber = 1, columnsNumber = 1\<rparr>] (Some 0) 2501 1
     = Inr (Some 0, [\<lparr>data = (replicate 2501 0)[0 := 7], rowsNumber = 2501, columnsNumber = 1\<rparr>])"
  by (simp add: Mat_Create_def Mat_CreateSquare_def Mat_Clear_def Mat_Resize_def MATRIX_IDENTITY_def
      prim_defs)

text \<open>
  What the guard does enforce. \<open>Mat_Create\<close>, and \<open>Mat_Resize\<close> of a null handle, return
  the null handle and allocate nothing when the rows or the columns exceed
  \<open>MATRIX_SIZE_MAX\<close>; otherwise the zero-filled creation returns a new matrix of exactly
  the requested dimensions. Every matrix \<open>Mat_Create\<close> returns, zero-filled or filled from
  an array, has the requested dimensions, neither above \<open>MATRIX_SIZE_MAX\<close>, and so at most
  \<open>MATRIX_SIZE_MAX * MATRIX_SIZE_MAX\<close> elements, the size of the scratch arrays.
\<close>

theorem create_limit_per_dimension:
  fixes h :: "'a::zero heap"
  shows "(MATRIX_SIZE_MAX < rows \<or> MATRIX_SIZE_MAX < columns \<longrightarrow>
            Mat_Create h dat rows columns = Inr (None, h)
          \<and> Mat_Resize h None rows columns = Inr (None, h))
       \<and> (rows \<le> MATRIX_SIZE_MAX \<and> columns \<le> MATRIX_SIZE_MAX \<longrightarrow>
            Mat_Create h None rows columns
              = Inr (Some (length h),
                     h @ [\<lparr>data = replicate (rows * columns) 0, rowsNumber = rows, columnsNumber = columns\<rparr>])
          \<and> Mat_Resize h None rows columns = Mat_Create h None rows columns)
       \<and> (Mat_Create h dat rows columns = Inr (Some p, h') \<longrightarrow>
            rows \<le> MATRIX_SIZE_MAX \<and> columns \<le> MATRIX_SIZE_MAX
          \<and> rowsNumber (h' ! p) = rows \<and> columnsNumber (h' ! p) = columns
          \<and> rows * columns \<le> MATRIX_SIZE_MAX * MATRIX_SIZE_MAX)"
proof -
  let ?new = "\<lparr>data = replicate (rows * columns) (0 :: 'a), rowsNumber = rows, columnsNumber = columns\<rparr>"
  have over: "Mat_Create h dat rows columns = Inr (None, h) \<and> Mat_Resize h None rows columns = Inr (None, h)"
    if "MATRIX_SIZE_MAX < rows \<or> MATRIX_SIZE_MAX < columns"
    using that by (auto simp add: Mat_Create_def Mat_Resize_def)
  have zero: "Mat_Create h None rows columns = Inr (Some (length h), h @ [?new])"
    if "rows \<le> MATRIX_SIZE_MAX \<and> columns \<le> MATRIX_SIZE_MAX"
    using that
    by (simp add: Mat_Create_def Mat_Clear_def deref_def assign_def memset0_def)
  have resize: "Mat_Resize h None rows columns = Mat_Create h None rows columns"
    by (simp add: Mat_Resize_def)
  have live: "rows \<le> MATRIX_SIZE_MAX \<and> columns \<le> MATRIX_SIZE_MAX
      \<and> rowsNumber (h' ! p) = rows \<and> columnsNumber (h' ! p) = columns
      \<and> rows * columns \<le> MATRIX_SIZE_MAX * MATRIX_SIZE_MAX"
    if created: "Mat_Create h dat rows columns = Inr (Some p, h')"
  proof -
    have within: "rows \<le> MATRIX_SIZE_MAX" "columns \<le> MATRIX_SIZE_MAX"
      using created by (auto simp add: Mat_Create_def split: if_splits)
    have dims: "rowsNumber (h' ! p) = rows \<and> columnsNumber (h' ! p) = columns"
    proof (cases dat)
      case None
      then show ?thesis using created zero within by auto
    next
      case (Some X)
      from created within Some obtain h2 where h2:
        "Mat_SetData (h @ [?new]) (Some (length h)) (Some X) = Inr h2" "p = length h" "h' = h2"
        by (cases "Mat_SetData (h @ [?new]) (Some (length h)) (Some X)")
          (auto simp add: Mat_Create_def)
      show ?thesis
        using Mat_SetData_keeps_dimensions [OF h2(1), of "length h"] h2(2,3) by simp
    qed
    show ?thesis
      using within dims mult_le_mono [OF within] by simp
  qed
  show ?thesis
    using over zero resize live by blast
qed

theorem create_limit_per_dimension_witness:
  "Mat_Create [] (Some [1, 2 :: real]) 2501 1 = Inr (None, [])
   \<and> Mat_Resize ([] :: real heap) None 2501 1 = Inr (None, [])
   \<and> Mat_Create ([] :: real heap) None 2500 2
       = Inr (Some 0, [\<lparr>data = replicate 5000 0, rowsNumber = 2500, columnsNumber = 2\<rparr>])
   \<and> rowsNumber ([\<lparr>data = replicate 5000 (0 :: real), rowsNumber = 2500, columnsNumber = 2\<rparr>] ! 0) = 2500"
proof -
  have over: "MATRIX_SIZE_MAX < 2501 \<or> MATRIX_SIZE_MAX < 1"
    and within: "2500 \<le> MATRIX_SIZE_MAX \<and> 2 \<le> MATRIX_SIZE_MAX"
    by (simp_all add: MATRIX_SIZE_MAX_def)
  note rejected = create_limit_per_dimension
    [of 2501 1 "[] :: real heap" "Some [1, 2]" 0 "[]", THEN conjunct1, rule_format, OF over]
  note created = create_limit_per_dimension
    [of 2500 2 "[] :: real heap" None 0
        "[\<lparr>data = replicate 5000 0, rowsNumber = 2500, columnsNumber = 2\<rparr>]",
      THEN conjunct2, THEN conjunct1, rule_format, OF within]
  note live = create_limit_per_dimension
    [of 2500 2 "[] :: real heap" None 0
        "[\<lparr>data = replicate 5000 0, rowsNumber = 2500, columnsNumber = 2\<rparr>]",
      THEN conjunct2, THEN conjunct2, rule_format]
  have c: "Mat_Create ([] :: real heap) None 2500 2
       = Inr (Some 0, [\<lparr>data = replicate 5000 0, rowsNumber = 2500, columnsNumber = 2\<rparr>])"
    using created by simp
  show ?thesis
    using rejected c live [OF c] by simp
qed

section \<open>Resizing\<close>

text \<open>
  C4. \<open>Mat_Resize\<close> copies back over the old dimensions with the new row stride. Resizing
  a 3 by 1 matrix to 2 by 2 leaves the old element of row 2 in the new cell (0, 1), and
  resizing a 1 by 4 matrix to 3 by 1 writes outside the buffer.
\<close>

theorem resize_shrinking_rows:
  "Mat_Resize [\<lparr>data = [1, 2, 3 :: real], rowsNumber = 3, columnsNumber = 1\<rparr>] (Some 0) 2 2
     = Inr (Some 0, [\<lparr>data = [1, 2, 3, 0], rowsNumber = 2, columnsNumber = 2\<rparr>])
   \<and> Mat_GetElement [\<lparr>data = [1, 2, 3, 0 :: real], rowsNumber = 2, columnsNumber = 2\<rparr>] (Some 0) 0 1
     = Inr 3
   \<and> Mat_Resize [\<lparr>data = [1, 2, 3, 4 :: real], rowsNumber = 1, columnsNumber = 4\<rparr>] (Some 0) 3 1
     = Inl OutOfBounds"
  by (simp add: Mat_Resize_def Mat_GetElement_def prim_defs upt_eval replicate_numeral)

section \<open>Scaling\<close>

text \<open>
  C3. \<open>Mat_Scale\<close> runs its loop over the element count recorded in the result, read
  before the result's dimensions are assigned. A result created 2 by 2 and resized to
  1 by 1 receives one scaled element of the 2 by 2 source and the dimensions 2 by 2.
\<close>

theorem scale_counts_result_elements:
  "Mat_Create [\<lparr>data = [1, 2, 3, 4 :: real], rowsNumber = 2, columnsNumber = 2\<rparr>] None 2 2
     = Inr (Some 1, [\<lparr>data = [1, 2, 3, 4], rowsNumber = 2, columnsNumber = 2\<rparr>,
                     \<lparr>data = [0, 0, 0, 0], rowsNumber = 2, columnsNumber = 2\<rparr>])
   \<and> Mat_Resize [\<lparr>data = [1, 2, 3, 4 :: real], rowsNumber = 2, columnsNumber = 2\<rparr>,
                 \<lparr>data = [0, 0, 0, 0], rowsNumber = 2, columnsNumber = 2\<rparr>] (Some 1) 1 1
     = Inr (Some 1, [\<lparr>data = [1, 2, 3, 4], rowsNumber = 2, columnsNumber = 2\<rparr>,
                     \<lparr>data = [0, 0, 0, 0], rowsNumber = 1, columnsNumber = 1\<rparr>])
   \<and> Mat_Scale [\<lparr>data = [1, 2, 3, 4 :: real], rowsNumber = 2, columnsNumber = 2\<rparr>,
                \<lparr>data = [0, 0, 0, 0], rowsNumber = 1, columnsNumber = 1\<rparr>] (Some 0) 2 (Some 1)
     = Inr (Some 1, [\<lparr>data = [1, 2, 3, 4], rowsNumber = 2, columnsNumber = 2\<rparr>,
                     \<lparr>data = [2, 0, 0, 0], rowsNumber = 2, columnsNumber = 2\<rparr>])"
  by (simp add: Mat_Create_def Mat_Clear_def Mat_Resize_def Mat_Scale_def prim_defs upt_eval
      replicate_numeral)

section \<open>Source and result in the same matrix\<close>

lemma scaled_prefix_step:
  assumes "n < length src" "n < length dst"
  shows "(map f (take n src) @ drop n dst)[n := f (src ! n)]
           = map f (take (Suc n) src) @ drop (Suc n) dst"
proof -
  have "drop n dst = dst ! n # drop (Suc n) dst"
    using assms(2) by (simp add: Cons_nth_drop_Suc)
  moreover have "length (map f (take n src)) = n"
    using assms(1) by simp
  ultimately show ?thesis
    using assms(1) by (simp add: list_update_append take_Suc_conv_app_nth)
qed

lemma scale_loop:
  fixes h :: "'a::times heap"
  assumes "a < length h" "r < length h"
    and "n \<le> length (data (h ! a))" "n \<le> length (data (h ! r))"
  shows "for_each [0..<n] (\<lambda>i h'. andThen (load h' (Some a) i) (\<lambda>v. store h' (Some r) i (k * v))) h
           = Inr (h[r := (h ! r)\<lparr>data := map ((*) k) (take n (data (h ! a))) @ drop n (data (h ! r))\<rparr>])"
  using assms(3,4)
proof (induction n)
  case 0
  show ?case by simp
next
  case (Suc n)
  let ?L = "map ((*) k) (take n (data (h ! a))) @ drop n (data (h ! r))"
  let ?hn = "h[r := (h ! r)\<lparr>data := ?L\<rparr>]"
  have len: "length ?L = length (data (h ! r))"
    using Suc.prems by simp
  have "?L ! n = data (h ! a) ! n" if "a = r"
    using that Suc.prems by (simp add: nth_append)
  then have ld: "load ?hn (Some a) n = Inr (data (h ! a) ! n)"
    using assms(1,2) Suc.prems len by (cases "a = r") (simp_all add: load_def deref_def read_arr_def)
  have st: "store ?hn (Some r) n v = Inr (h[r := (h ! r)\<lparr>data := ?L[n := v]\<rparr>])" for v
    using assms(2) Suc.prems len by (simp add: store_def deref_def write_arr_def assign_def)
  have "for_each [0..<Suc n] (\<lambda>i h'. andThen (load h' (Some a) i) (\<lambda>v. store h' (Some r) i (k * v))) h
          = Inr (h[r := (h ! r)\<lparr>data := ?L[n := k * data (h ! a) ! n]\<rparr>])"
    using Suc.IH Suc.prems by (simp add: for_each_append ld st)
  moreover have "?L[n := k * data (h ! a) ! n]
      = map ((*) k) (take (Suc n) (data (h ! a))) @ drop (Suc n) (data (h ! r))"
    using Suc.prems by (intro scaled_prefix_step) simp_all
  ultimately show ?case by simp
qed

lemma Mat_Scale_result:
  fixes h :: "'a::times heap"
  assumes "a < length h" "r < length h"
    and "rowsNumber (h ! r) * columnsNumber (h ! r) \<le> length (data (h ! a))"
    and "rowsNumber (h ! r) * columnsNumber (h ! r) \<le> length (data (h ! r))"
  shows "Mat_Scale h (Some a) k (Some r)
           = Inr (Some r, h[r := (h ! r)\<lparr>data :=
                      map ((*) k) (take (rowsNumber (h ! r) * columnsNumber (h ! r)) (data (h ! a)))
                        @ drop (rowsNumber (h ! r) * columnsNumber (h ! r)) (data (h ! r)),
                    rowsNumber := rowsNumber (h ! a), columnsNumber := columnsNumber (h ! a)\<rparr>])"
proof (cases "a = r")
  case True
  then show ?thesis
    using assms by (simp add: Mat_Scale_def scale_loop deref_def assign_def)
next
  case False
  then show ?thesis
    using assms by (simp add: Mat_Scale_def scale_loop deref_def assign_def)
qed

lemma scratch_write_loop:
  assumes "\<And>i. i \<in> set xs \<Longrightarrow> src i = Inr (f i)"
    and "\<And>i. i \<in> set xs \<Longrightarrow> dst i < MATRIX_SIZE_MAX * MATRIX_SIZE_MAX"
  shows "for_each xs (\<lambda>i aux. andThen (src i) (\<lambda>v. scratch_write aux (dst i) v)) aux0
           = Inr (fold (\<lambda>i aux. aux(dst i := f i)) xs aux0)"
  using assms
proof (induction xs arbitrary: aux0)
  case Nil
  show ?case by simp
next
  case (Cons x xs)
  have "andThen (src x) (\<lambda>v. scratch_write aux0 (dst x) v) = Inr (aux0(dst x := f x))"
    using Cons.prems by (simp add: scratch_write_def)
  moreover have "for_each xs (\<lambda>i aux. andThen (src i) (\<lambda>v. scratch_write aux (dst i) v)) (aux0(dst x := f x))
      = Inr (fold (\<lambda>i aux. aux(dst i := f i)) xs (aux0(dst x := f x)))"
    using Cons.prems by (intro Cons.IH) simp_all
  ultimately show ?case by (simp only: for_each.simps andThen_simps fold_simps)
qed

lemma length_transposed [simp]: "length (transposed R C src) = C * R"
  by (simp add: transposed_def)

lemma fold_fun_upd_other:
  "j \<notin> dst ` set xs \<Longrightarrow> fold (\<lambda>i aux. aux(dst i := f i)) xs aux0 j = aux0 j"
  by (induction xs arbitrary: aux0) auto

lemma fold_fun_upd_hit:
  "inj_on dst (set xs) \<Longrightarrow> i \<in> set xs \<Longrightarrow> fold (\<lambda>i aux. aux(dst i := f i)) xs aux0 (dst i) = f i"
proof (induction xs arbitrary: aux0)
  case Nil
  then show ?case by simp
next
  case (Cons x xs)
  show ?case
  proof (cases "i \<in> set xs")
    case True
    then show ?thesis using Cons by simp
  next
    case False
    then have ix: "i = x" using Cons.prems(2) by simp
    have "dst x \<notin> dst ` set xs"
      using Cons.prems(1) False ix by (auto simp add: inj_on_def)
    then have "fold (\<lambda>i aux. aux(dst i := f i)) xs (aux0(dst x := f x)) (dst x)
        = (aux0(dst x := f x)) (dst x)"
      by (rule fold_fun_upd_other)
    then show ?thesis
      unfolding ix by (simp only: fold_simps fun_upd_same)
  qed
qed

lemma transposed_nth:
  assumes "i < C" "j < R"
  shows "transposed R C src ! (j * C + i) = src ! (i * R + j)"
proof -
  have "j * C + i < C * R"
    using assms by (intro cell_index_less)
  moreover have "(i, j) \<in> set (List.product [0..<C] [0..<R])"
    using assms by simp
  moreover have "inj_on (\<lambda>p. snd p * C + fst p) (set (List.product [0..<C] [0..<R]))"
    by (auto simp add: inj_on_def dest: cell_index_inj)
  ultimately show ?thesis
    using fold_fun_upd_hit [where dst = "\<lambda>p. snd p * C + fst p" and i = "(i, j)"
        and xs = "List.product [0..<C] [0..<R]" and f = "\<lambda>p. src ! (fst p * R + snd p)"
        and ?aux0.0 = "\<lambda>_. 0"]
    by (simp add: transposed_def)
qed

lemma transposed_twice:
  assumes "R * C \<le> length src"
  shows "transposed C R (transposed R C src @ rest) = take (R * C) src"
proof (rule nth_equalityI)
  show "length (transposed C R (transposed R C src @ rest)) = length (take (R * C) src)"
    using assms by simp
next
  fix k
  assume "k < length (transposed C R (transposed R C src @ rest))"
  then have k: "k < R * C" by simp
  then have R: "0 < R" by (cases "R = 0") simp_all
  let ?i = "k mod R" and ?j = "k div R"
  have i: "?i < R" using R by simp
  have j: "?j < C" using k R by (simp add: less_mult_imp_div_less mult.commute)
  have split: "?j * R + ?i = k" by simp
  have "?i * C + ?j < C * R"
    using j i by (intro cell_index_less)
  then have inner: "(transposed R C src @ rest) ! (?i * C + ?j) = transposed R C src ! (?i * C + ?j)"
    by (simp add: nth_append)
  have "transposed C R (transposed R C src @ rest) ! (?j * R + ?i)
      = (transposed R C src @ rest) ! (?i * C + ?j)"
    using i j by (rule transposed_nth)
  also have "\<dots> = src ! (?j * R + ?i)"
    using inner transposed_nth [OF j i, of src] by simp
  finally show "transposed C R (transposed R C src @ rest) ! k = take (R * C) src ! k"
    using k split by simp
qed

lemma Mat_Transpose_result:
  fixes h :: "'a::zero heap"
  assumes "a < length h" "r < length h"
    and shape: "a \<noteq> r \<or> rowsNumber (h ! a) = columnsNumber (h ! a)"
    and "rowsNumber (h ! a) * columnsNumber (h ! a) \<le> MATRIX_SIZE_MAX * MATRIX_SIZE_MAX"
    and "rowsNumber (h ! a) * columnsNumber (h ! a) \<le> length (data (h ! a))"
    and "rowsNumber (h ! a) * columnsNumber (h ! a) \<le> length (data (h ! r))"
  shows "Mat_Transpose h (Some a) (Some r)
           = Inr (Some r, h[r := (h ! r)\<lparr>rowsNumber := columnsNumber (h ! a),
                    columnsNumber := rowsNumber (h ! a),
                    data := transposed (rowsNumber (h ! a)) (columnsNumber (h ! a)) (data (h ! a))
                              @ drop (rowsNumber (h ! a) * columnsNumber (h ! a)) (data (h ! r))\<rparr>])"
proof -
  let ?R = "rowsNumber (h ! a)" and ?C = "columnsNumber (h ! a)"
  let ?h2 = "h[r := (h ! r)\<lparr>rowsNumber := ?C, columnsNumber := ?R\<rparr>]"
  let ?ps = "List.product [0..<?C] [0..<?R]"
  let ?aux = "fold (\<lambda>p aux. aux(snd p * ?C + fst p := data (h ! a) ! (fst p * ?R + snd p))) ?ps (\<lambda>_. 0)"
  have dims: "andThen (deref h (Some a)) (\<lambda>m0.
              andThen (assign h (Some r) (\<lambda>r'. r'\<lparr>rowsNumber := columnsNumber m0\<rparr>)) (\<lambda>h1.
              andThen (deref h1 (Some a)) (\<lambda>m1.
              andThen (assign h1 (Some r) (\<lambda>r'. r'\<lparr>columnsNumber := rowsNumber m1\<rparr>)) k)))
            = k ?h2" for k :: "'a heap \<Rightarrow> fault + (Matrix \<times> 'a heap)"
    using assms(1,2) shape by (cases "a = r") (simp_all add: deref_def assign_def)
  have cell_r: "deref ?h2 (Some r) = Inr ((h ! r)\<lparr>rowsNumber := ?C, columnsNumber := ?R\<rparr>)"
    using assms(2) by (simp add: deref_def)
  have cell_a: "deref ?h2 (Some a) = Inr (?h2 ! a)" "rowsNumber (?h2 ! a) = ?R"
    "data (?h2 ! a) = data (h ! a)"
    using assms(1,2) shape by (auto simp add: deref_def nth_list_update)
  have src: "load ?h2 (Some a) (fst p * ?R + snd p) = Inr (data (h ! a) ! (fst p * ?R + snd p))"
    if "p \<in> set ?ps" for p
  proof -
    have "fst p * ?R + snd p < ?R * ?C"
      using that by (intro cell_index_less) auto
    then show ?thesis
      using assms(5) cell_a by (simp add: load_def read_arr_def)
  qed
  have dst: "snd p * ?C + fst p < MATRIX_SIZE_MAX * MATRIX_SIZE_MAX" if "p \<in> set ?ps" for p
  proof -
    have "snd p * ?C + fst p < ?C * ?R"
      using that by (intro cell_index_less) auto
    then show ?thesis using assms(4) by (simp add: mult.commute)
  qed
  have loop: "for_each ?ps (\<lambda>p aux. andThen (load ?h2 (Some a) (fst p * ?R + snd p))
                (\<lambda>v. scratch_write aux (snd p * ?C + fst p) v)) (\<lambda>_. 0) = Inr ?aux"
    using src dst by (rule scratch_write_loop)
  show ?thesis
    unfolding Mat_Transpose_def option.case dims
    using assms(2,4,6)
    by (simp add: cell_r cell_a for_each_nested loop scratch_block_def memcpy_def assign_def
        transposed_def mult.commute)
qed

lemma length_overwrite [simp]: "n \<le> length buf \<Longrightarrow> length (overwrite buf out n) = length buf"
  by (simp add: overwrite_def)

lemma take_overwrite:
  assumes "take n b1 = take n b2" "n \<le> length b1" "n \<le> length b2"
  shows "take n (overwrite b1 out n) = take n (overwrite b2 out n)"
proof -
  have tail: "take (n - length out) (drop (length out) b1) = take (n - length out) (drop (length out) b2)"
  proof (cases "length out \<le> n")
    case True
    then have "take (n - length out) (drop (length out) b) = drop (length out) (take n b)" for b :: "'a list"
      by (simp add: take_drop)
    then show ?thesis using assms(1) by simp
  next
    case False
    then show ?thesis by simp
  qed
  have "take n (overwrite b out n) = take n out @ take (n - length out) (drop (length out) b)"
    if "n \<le> length b" for b
    using that by (auto simp add: overwrite_def min_def)
  then show ?thesis using assms(2,3) tail by simp
qed

lemma lapack_inverse_prefix:
  assumes "take (n * n) b1 = take (n * n) b2" "n * n \<le> length b1" "n * n \<le> length b2"
  shows "snd (lapack_inverse dgetrf dgetri n b1) = snd (lapack_inverse dgetrf dgetri n b2)
       \<and> take (n * n) (fst (lapack_inverse dgetrf dgetri n b1))
           = take (n * n) (fst (lapack_inverse dgetrf dgetri n b2))"
proof -
  obtain lu ipiv info where lu: "dgetrf n n (take (n * n) b2) n = (lu, ipiv, info)"
    by (cases "dgetrf n n (take (n * n) b2) n") auto
  have one: "take (n * n) (overwrite b1 lu (n * n)) = take (n * n) (overwrite b2 lu (n * n))"
    using assms by (rule take_overwrite)
  obtain out info' where out:
    "dgetri n (take (n * n) (overwrite b2 lu (n * n))) n ipiv (n * n) = (out, info')"
    by (cases "dgetri n (take (n * n) (overwrite b2 lu (n * n))) n ipiv (n * n)") auto
  have two: "take (n * n) (overwrite (overwrite b1 lu (n * n)) out (n * n))
      = take (n * n) (overwrite (overwrite b2 lu (n * n)) out (n * n))"
    using one by (rule take_overwrite) (simp_all add: assms(2,3))
  show ?thesis
    by (simp add: lapack_inverse_def assms(1) lu one out two)
qed

lemma square_dimensions_update:
  "rowsNumber m = n \<Longrightarrow> columnsNumber m = n
     \<Longrightarrow> m\<lparr>rowsNumber := n, columnsNumber := n, data := d\<rparr> = m\<lparr>data := d\<rparr>"
  by (cases m) simp

lemma Mat_Inverse_result:
  assumes "a < length h" "r < length h"
    and sq: "rowsNumber (h ! a) = n" "columnsNumber (h ! a) = n"
    and "n \<le> MATRIX_SIZE_MAX"
    and "n * n \<le> length (data (h ! a))" "n * n \<le> length (data (h ! r))"
  shows "Mat_Inverse dgetrf dgetri h (Some a) (Some r)
           = (case lapack_inverse dgetrf dgetri n
                     (if a = r then data (h ! a)
                      else take (n * n) (data (h ! a)) @ drop (n * n) (data (h ! r))) of
                (inverted, ok) \<Rightarrow>
                  Inr (if ok then Some r else None,
                       h[r := (h ! r)\<lparr>rowsNumber := n, columnsNumber := n, data := inverted\<rparr>]))"
proof -
  have nn: "n * n \<le> MATRIX_SIZE_MAX * MATRIX_SIZE_MAX"
    using assms(5) by (intro mult_le_mono)
  show ?thesis
  proof (cases "a = r")
    case True
    then show ?thesis
      using assms nn
      by (simp add: Mat_Inverse_def lapack_inverse_def call_dgetrf_def call_dgetri_def
          deref_def assign_def square_dimensions_update split: prod.splits)
  next
    case False
    then show ?thesis
      using assms nn
      by (simp add: Mat_Inverse_def lapack_inverse_def call_dgetrf_def call_dgetri_def
          deref_def assign_def memcpy_def split: prod.splits)
  qed
qed

text \<open>
  Where the destination already records the element count of the source. Let \<open>a\<close> be a
  matrix whose dimensions are within \<open>MATRIX_SIZE_MAX\<close> and \<open>d\<close> another matrix, both with
  a buffer for the elements of \<open>a\<close>. \<open>Mat_Scale\<close> with \<open>a\<close> as source and result leaves in
  \<open>a\<close> a matrix equal, in dimensions and elements, to the one it leaves in \<open>d\<close> when \<open>d\<close>
  is the result, provided \<open>d\<close> records the element count of \<open>a\<close>. For a square \<open>a\<close> the
  same holds, with no condition on what \<open>d\<close> records, for \<open>Mat_Transpose\<close> and, whatever
  the two kernels compute, for \<open>Mat_Inverse\<close>, which fails on both or on neither.
\<close>

theorem aliased_result_equals_distinct_result:
  fixes h :: "'a::{zero,times} heap"
  assumes "a < length h" "d < length h" "a \<noteq> d"
    and "rowsNumber (h ! a) \<le> MATRIX_SIZE_MAX" "columnsNumber (h ! a) \<le> MATRIX_SIZE_MAX"
    and "rowsNumber (h ! a) * columnsNumber (h ! a) \<le> length (data (h ! a))"
    and "rowsNumber (h ! a) * columnsNumber (h ! a) \<le> length (data (h ! d))"
  shows "(rowsNumber (h ! d) * columnsNumber (h ! d) = rowsNumber (h ! a) * columnsNumber (h ! a) \<longrightarrow>
            (\<exists>ha hd. Mat_Scale h (Some a) k (Some a) = Inr (Some a, ha)
                \<and> Mat_Scale h (Some a) k (Some d) = Inr (Some d, hd)
                \<and> equal_matrices (ha ! a) (hd ! d)))
       \<and> (rowsNumber (h ! a) = columnsNumber (h ! a) \<longrightarrow>
            (\<exists>ha hd. Mat_Transpose h (Some a) (Some a) = Inr (Some a, ha)
                \<and> Mat_Transpose h (Some a) (Some d) = Inr (Some d, hd)
                \<and> equal_matrices (ha ! a) (hd ! d))
          \<and> (\<exists>ha hd ok. Mat_Inverse dgetrf dgetri h (Some a) (Some a) = Inr (if ok then Some a else None, ha)
                \<and> Mat_Inverse dgetrf dgetri h (Some a) (Some d) = Inr (if ok then Some d else None, hd)
                \<and> equal_matrices (ha ! a) (hd ! d)))"
proof -
  let ?R = "rowsNumber (h ! a)" and ?C = "columnsNumber (h ! a)"
  let ?Da = "data (h ! a)" and ?Dd = "data (h ! d)"
  have scale: "\<exists>ha hd. Mat_Scale h (Some a) k (Some a) = Inr (Some a, ha)
      \<and> Mat_Scale h (Some a) k (Some d) = Inr (Some d, hd) \<and> equal_matrices (ha ! a) (hd ! d)"
    if count: "rowsNumber (h ! d) * columnsNumber (h ! d) = ?R * ?C"
  proof -
    let ?S = "map ((*) k) (take (?R * ?C) ?Da)"
    let ?ha = "h[a := (h ! a)\<lparr>data := ?S @ drop (?R * ?C) ?Da, rowsNumber := ?R, columnsNumber := ?C\<rparr>]"
    let ?hd = "h[d := (h ! d)\<lparr>data := ?S @ drop (?R * ?C) ?Dd, rowsNumber := ?R, columnsNumber := ?C\<rparr>]"
    have "Mat_Scale h (Some a) k (Some a) = Inr (Some a, ?ha)"
      using Mat_Scale_result [of a h a k] assms(1,6) by simp
    moreover have "Mat_Scale h (Some a) k (Some d) = Inr (Some d, ?hd)"
      using Mat_Scale_result [of a h d k] assms(1,2,6,7) count by simp
    moreover have "equal_matrices (?ha ! a) (?hd ! d)"
      using assms(1,2,6) by (simp add: equal_matrices_def)
    ultimately show ?thesis by blast
  qed
  have nn: "?C * ?C \<le> length ?Da" "?C * ?C \<le> length ?Dd" if "?R = ?C"
    using that assms(6,7) by simp_all
  have transpose: "\<exists>ha hd. Mat_Transpose h (Some a) (Some a) = Inr (Some a, ha)
      \<and> Mat_Transpose h (Some a) (Some d) = Inr (Some d, hd) \<and> equal_matrices (ha ! a) (hd ! d)"
    if sq: "?R = ?C"
  proof -
    let ?T = "transposed ?R ?C ?Da"
    let ?ha = "h[a := (h ! a)\<lparr>rowsNumber := ?C, columnsNumber := ?R, data := ?T @ drop (?R * ?C) ?Da\<rparr>]"
    let ?hd = "h[d := (h ! d)\<lparr>rowsNumber := ?C, columnsNumber := ?R, data := ?T @ drop (?R * ?C) ?Dd\<rparr>]"
    have scratch: "?R * ?C \<le> MATRIX_SIZE_MAX * MATRIX_SIZE_MAX"
      using assms(4,5) by (rule mult_le_mono)
    have "Mat_Transpose h (Some a) (Some a) = Inr (Some a, ?ha)"
      using assms(1,6) sq scratch by (intro Mat_Transpose_result) simp_all
    moreover have "Mat_Transpose h (Some a) (Some d) = Inr (Some d, ?hd)"
      using assms(1,2,3,6,7) scratch by (intro Mat_Transpose_result) simp_all
    moreover have "equal_matrices (?ha ! a) (?hd ! d)"
      using assms(1,2) by (simp add: equal_matrices_def mult.commute)
    ultimately show ?thesis by blast
  qed
  have inverse: "\<exists>ha hd ok. Mat_Inverse dgetrf dgetri h (Some a) (Some a) = Inr (if ok then Some a else None, ha)
      \<and> Mat_Inverse dgetrf dgetri h (Some a) (Some d) = Inr (if ok then Some d else None, hd)
      \<and> equal_matrices (ha ! a) (hd ! d)"
    if sq: "?R = ?C"
  proof -
    let ?copy = "take (?C * ?C) ?Da @ drop (?C * ?C) ?Dd"
    let ?Ia = "lapack_inverse dgetrf dgetri ?C ?Da" and ?Id = "lapack_inverse dgetrf dgetri ?C ?copy"
    let ?ha = "h[a := (h ! a)\<lparr>rowsNumber := ?C, columnsNumber := ?C, data := fst ?Ia\<rparr>]"
    let ?hd = "h[d := (h ! d)\<lparr>rowsNumber := ?C, columnsNumber := ?C, data := fst ?Id\<rparr>]"
    have same: "snd ?Ia = snd ?Id" "take (?C * ?C) (fst ?Ia) = take (?C * ?C) (fst ?Id)"
      using lapack_inverse_prefix [of ?C ?Da ?copy dgetrf dgetri] nn [OF sq] by simp_all
    have "Mat_Inverse dgetrf dgetri h (Some a) (Some a) = Inr (if snd ?Ia then Some a else None, ?ha)"
      using Mat_Inverse_result [of a h a ?C dgetrf dgetri] assms(1,5) sq nn [OF sq]
      by (simp add: split_def)
    moreover have "Mat_Inverse dgetrf dgetri h (Some a) (Some d) = Inr (if snd ?Ia then Some d else None, ?hd)"
      using Mat_Inverse_result [of a h d ?C dgetrf dgetri] assms(1,2,3,5) sq nn [OF sq] same(1)
      by (simp add: split_def)
    moreover have "equal_matrices (?ha ! a) (?hd ! d)"
      using assms(1,2) same(2) by (simp add: equal_matrices_def)
    ultimately show ?thesis by blast
  qed
  show ?thesis
    using scale transpose inverse by blast
qed

theorem aliased_result_equals_distinct_result_witness:
  "(\<exists>ha hd. Mat_Scale [\<lparr>data = [1, 2, 3, 4 :: real], rowsNumber = 2, columnsNumber = 2\<rparr>,
                        \<lparr>data = [0, 0, 0, 0, 0], rowsNumber = 4, columnsNumber = 1\<rparr>] (Some 0) 3 (Some 0)
               = Inr (Some 0, ha)
      \<and> Mat_Scale [\<lparr>data = [1, 2, 3, 4 :: real], rowsNumber = 2, columnsNumber = 2\<rparr>,
                   \<lparr>data = [0, 0, 0, 0, 0], rowsNumber = 4, columnsNumber = 1\<rparr>] (Some 0) 3 (Some 1)
               = Inr (Some 1, hd)
      \<and> equal_matrices (ha ! 0) (hd ! 1))
   \<and> (\<exists>ha hd. Mat_Transpose [\<lparr>data = [1, 2, 3, 4 :: real], rowsNumber = 2, columnsNumber = 2\<rparr>,
                        \<lparr>data = [0, 0, 0, 0, 0], rowsNumber = 4, columnsNumber = 1\<rparr>] (Some 0) (Some 0)
               = Inr (Some 0, ha)
      \<and> Mat_Transpose [\<lparr>data = [1, 2, 3, 4 :: real], rowsNumber = 2, columnsNumber = 2\<rparr>,
                   \<lparr>data = [0, 0, 0, 0, 0], rowsNumber = 4, columnsNumber = 1\<rparr>] (Some 0) (Some 1)
               = Inr (Some 1, hd)
      \<and> equal_matrices (ha ! 0) (hd ! 1))
   \<and> (\<exists>ha hd ok. Mat_Inverse lu_of_identity (\<lambda>N A ldA IPIV lwork. (A, 0))
                       [\<lparr>data = [1, 2, 3, 4 :: real], rowsNumber = 2, columnsNumber = 2\<rparr>,
                        \<lparr>data = [0, 0, 0, 0, 0], rowsNumber = 4, columnsNumber = 1\<rparr>] (Some 0) (Some 0)
               = Inr (if ok then Some 0 else None, ha)
      \<and> Mat_Inverse lu_of_identity (\<lambda>N A ldA IPIV lwork. (A, 0))
                       [\<lparr>data = [1, 2, 3, 4 :: real], rowsNumber = 2, columnsNumber = 2\<rparr>,
                        \<lparr>data = [0, 0, 0, 0, 0], rowsNumber = 4, columnsNumber = 1\<rparr>] (Some 0) (Some 1)
               = Inr (if ok then Some 1 else None, hd)
      \<and> equal_matrices (ha ! 0) (hd ! 1))"
  using aliased_result_equals_distinct_result
    [of 0 "[\<lparr>data = [1, 2, 3, 4 :: real], rowsNumber = 2, columnsNumber = 2\<rparr>,
            \<lparr>data = [0, 0, 0, 0, 0], rowsNumber = 4, columnsNumber = 1\<rparr>]" 1 3
        lu_of_identity "\<lambda>N A ldA IPIV lwork. (A, 0)"]
  by (simp add: MATRIX_SIZE_MAX_def)

text \<open>
  C6. \<open>Mat_Scale\<close> into a distinct destination does not give what it gives in place. For
  a 2 by 2 source, the call with the source as its own result scales the four elements;
  with a destination that holds four elements and records 1 by 1 (created 2 by 2 and
  resized) it scales one element and leaves the other three, so the two results differ;
  with a destination created 3 by 3 it reads the source outside its buffer. The loop
  counts the elements the destination recorded before the call.
\<close>

theorem aliased_scale_differs_from_distinct:
  "Mat_Scale [\<lparr>data = [1, 2, 3, 4 :: real], rowsNumber = 2, columnsNumber = 2\<rparr>,
              \<lparr>data = [0, 0, 0, 0], rowsNumber = 1, columnsNumber = 1\<rparr>] (Some 0) 3 (Some 0)
     = Inr (Some 0, [\<lparr>data = [3, 6, 9, 12], rowsNumber = 2, columnsNumber = 2\<rparr>,
                     \<lparr>data = [0, 0, 0, 0], rowsNumber = 1, columnsNumber = 1\<rparr>])
   \<and> Mat_Scale [\<lparr>data = [1, 2, 3, 4 :: real], rowsNumber = 2, columnsNumber = 2\<rparr>,
                \<lparr>data = [0, 0, 0, 0], rowsNumber = 1, columnsNumber = 1\<rparr>] (Some 0) 3 (Some 1)
     = Inr (Some 1, [\<lparr>data = [1, 2, 3, 4], rowsNumber = 2, columnsNumber = 2\<rparr>,
                     \<lparr>data = [3, 0, 0, 0], rowsNumber = 2, columnsNumber = 2\<rparr>])
   \<and> \<not> equal_matrices \<lparr>data = [3, 6, 9, 12 :: real], rowsNumber = 2, columnsNumber = 2\<rparr>
                         \<lparr>data = [3, 0, 0, 0], rowsNumber = 2, columnsNumber = 2\<rparr>
   \<and> Mat_Create [\<lparr>data = [1, 2, 3, 4 :: real], rowsNumber = 2, columnsNumber = 2\<rparr>] None 3 3
     = Inr (Some 1, [\<lparr>data = [1, 2, 3, 4], rowsNumber = 2, columnsNumber = 2\<rparr>,
                     \<lparr>data = [0, 0, 0, 0, 0, 0, 0, 0, 0], rowsNumber = 3, columnsNumber = 3\<rparr>])
   \<and> Mat_Scale [\<lparr>data = [1, 2, 3, 4 :: real], rowsNumber = 2, columnsNumber = 2\<rparr>,
                \<lparr>data = [0, 0, 0, 0, 0, 0, 0, 0, 0], rowsNumber = 3, columnsNumber = 3\<rparr>] (Some 0) 3 (Some 1)
     = Inl OutOfBounds"
  by (simp add: Mat_Scale_def Mat_Create_def Mat_Clear_def equal_matrices_def prim_defs upt_eval
      replicate_numeral)

section \<open>Transposition\<close>

text \<open>
  With three matrices, the second distinct from the first and from the third, and
  buffers for the elements of the first, transposing twice gives back the dimensions
  and the elements of the first.
\<close>

lemma transpose_twice_distinct:
  fixes h :: "'a::zero heap"
  assumes "a < length h" "b < length h" "c < length h" "a \<noteq> b" "b \<noteq> c"
    and "rowsNumber (h ! a) * columnsNumber (h ! a) \<le> MATRIX_SIZE_MAX * MATRIX_SIZE_MAX"
    and "rowsNumber (h ! a) * columnsNumber (h ! a) \<le> length (data (h ! a))"
    and "rowsNumber (h ! a) * columnsNumber (h ! a) \<le> length (data (h ! b))"
    and "rowsNumber (h ! a) * columnsNumber (h ! a) \<le> length (data (h ! c))"
  shows "\<exists>h1 h2. Mat_Transpose h (Some a) (Some b) = Inr (Some b, h1)
           \<and> Mat_Transpose h1 (Some b) (Some c) = Inr (Some c, h2)
           \<and> equal_matrices (h2 ! c) (h ! a)"
proof -
  let ?R = "rowsNumber (h ! a)" and ?C = "columnsNumber (h ! a)"
  let ?B = "transposed ?R ?C (data (h ! a)) @ drop (?R * ?C) (data (h ! b))"
  let ?h1 = "h[b := (h ! b)\<lparr>rowsNumber := ?C, columnsNumber := ?R, data := ?B\<rparr>]"
  let ?h2 = "?h1[c := (?h1 ! c)\<lparr>rowsNumber := ?R, columnsNumber := ?C,
               data := transposed ?C ?R ?B @ drop (?C * ?R) (data (?h1 ! c))\<rparr>]"
  have first: "Mat_Transpose h (Some a) (Some b) = Inr (Some b, ?h1)"
    using assms by (intro Mat_Transpose_result) simp_all
  have cell: "?h1 ! b = (h ! b)\<lparr>rowsNumber := ?C, columnsNumber := ?R, data := ?B\<rparr>"
    using assms(2) by simp
  have lenB: "length ?B = length (data (h ! b))"
    using assms(8) by (simp add: mult.commute)
  have lenc: "length (data (?h1 ! c)) = length (data (h ! c))"
    using assms(5) by simp
  have second: "Mat_Transpose ?h1 (Some b) (Some c) = Inr (Some c, ?h2)"
    using Mat_Transpose_result [of b ?h1 c] assms(2,3,5,6,8,9) lenB lenc
    by (simp add: cell mult.commute)
  have "transposed ?C ?R ?B = take (?R * ?C) (data (h ! a))"
    using assms(7) by (rule transposed_twice)
  then have "equal_matrices (?h2 ! c) (h ! a)"
    using assms(3,7) by (simp add: equal_matrices_def)
  with first second show ?thesis by blast
qed

text \<open>
  C9. \<open>Mat_Transpose\<close> with the source as its own result assigns the row count before it
  reads it for the column count. A 2 by 1 matrix becomes 1 by 1 and stays so when
  transposed again; a 1 by 2 matrix is read outside its buffer.
\<close>

theorem aliased_transpose_twice:
  "Mat_Transpose [\<lparr>data = [1, 2 :: real], rowsNumber = 2, columnsNumber = 1\<rparr>] (Some 0) (Some 0)
     = Inr (Some 0, [\<lparr>data = [1, 2], rowsNumber = 1, columnsNumber = 1\<rparr>])
   \<and> Mat_Transpose [\<lparr>data = [1, 2 :: real], rowsNumber = 1, columnsNumber = 1\<rparr>] (Some 0) (Some 0)
     = Inr (Some 0, [\<lparr>data = [1, 2], rowsNumber = 1, columnsNumber = 1\<rparr>])
   \<and> Mat_Transpose [\<lparr>data = [1, 2 :: real], rowsNumber = 1, columnsNumber = 2\<rparr>] (Some 0) (Some 0)
     = Inl OutOfBounds"
  by (simp add: Mat_Transpose_def prim_defs upt_eval)

section \<open>Determinant\<close>

lemma length_identity_data [simp]: "length (identity_data n :: 'a::{zero,one} list) = n * n"
  by (simp add: identity_data_def)

lemma identity_data_diagonal:
  assumes "i < n"
  shows "(identity_data n :: 'a::{zero,one} list) ! (i * n + i) = 1"
proof -
  have "inj_on (\<lambda>line. line * n + line) (set [0..<n])"
    by (auto simp add: inj_on_def dest: cell_index_inj)
  moreover have "i * n + i < n * n"
    using assms by (intro cell_index_less)
  ultimately show ?thesis
    unfolding identity_data_def
    using fold_update_hit [where dst = "\<lambda>line. line * n + line" and xs = "[0..<n]" and i = i
        and d = "replicate (n * n) (0 :: 'a)" and f = "\<lambda>_. 1"] assms
    by simp
qed

lemma Mat_CreateSquare_identity:
  fixes h :: "'a::{zero,one} heap"
  assumes "n \<le> MATRIX_SIZE_MAX"
  shows "Mat_CreateSquare h n MATRIX_IDENTITY
           = Inr (Some (length h), h @ [\<lparr>data = identity_data n, rowsNumber = n, columnsNumber = n\<rparr>])"
proof -
  let ?h1 = "h @ [\<lparr>data = replicate (n * n) (0 :: 'a), rowsNumber = n, columnsNumber = n\<rparr>]"
  have create: "Mat_Create h None n n = Inr (Some (length h), ?h1)"
    using assms by (simp add: Mat_Create_def Mat_Clear_def deref_def assign_def memset0_def)
  have "for_each [0..<n] (\<lambda>line h'. andThen (Inr 1) (\<lambda>v. store h' (Some (length h)) (line * n + line) v)) ?h1
          = Inr (?h1[length h := (?h1 ! length h)\<lparr>data :=
                  fold (\<lambda>line d. d[line * n + line := 1]) [0..<n] (data (?h1 ! length h))\<rparr>])"
  proof (rule store_loop)
    show "length h < length ?h1" by simp
    show "Inr 1 = Inr 1" by simp
    show "line * n + line < length (data (?h1 ! length h))" if "line \<in> set [0..<n]" for line
      using cell_index_less [of line n line n] that by simp
  qed
  then show ?thesis
    by (simp add: Mat_CreateSquare_def create identity_data_def)
qed

lemma determinant_loop:
  fixes aux :: "'a::ring_1 list"
  assumes "k \<le> n" "length pivots = n"
    and "\<And>i. i < n \<Longrightarrow> i * n + i < length aux \<and> aux ! (i * n + i) = 1 \<and> pivots ! i = int i + 1"
  shows "for_each [0..<k] (\<lambda>pivotIndex determinant.
           andThen (read_arr aux (pivotIndex * n + pivotIndex)) (\<lambda>u.
           andThen (read_arr pivots pivotIndex) (\<lambda>p.
             Inr (if p \<noteq> int pivotIndex then (determinant * u) * (- 1) else determinant * u)))) 1
         = Inr ((- 1) ^ k)"
  using assms(1)
proof (induction k)
  case 0
  show ?case by simp
next
  case (Suc k)
  then have "k < n" by simp
  then show ?case
    using Suc assms(2) assms(3) [of k] by (simp add: for_each_append read_arr_def)
qed

lemma overwrite_self: "length buf = n \<Longrightarrow> overwrite buf buf n = buf"
  by (simp add: overwrite_def)

text \<open>
  C2. For every order \<open>n\<close> up to \<open>MATRIX_SIZE_MAX\<close>, \<open>Mat_CreateSquare\<close> builds the identity
  and, with the pivots counted from 1, \<open>Mat_Determinant\<close> returns \<open>(- 1) ^ n\<close> for it: the
  diagonal of the factors is all ones, and the pivot \<open>i + 1\<close> of row \<open>i\<close> is compared with
  the index \<open>i\<close>, differs from it, and negates the product once per row. The elements are
  of any ring; the products of \<open>1\<close> and \<open>- 1\<close> involved are exact in \<^verbatim>\<open>double\<close> too. For the
  order 1 the result is \<open>- 1\<close>.
\<close>

theorem determinant_of_identity:
  fixes h :: "'a::ring_1 heap"
  assumes "n \<le> MATRIX_SIZE_MAX"
  shows "\<exists>h'. Mat_CreateSquare h n MATRIX_IDENTITY = Inr (Some (length h), h')
           \<and> Mat_Determinant lu_of_identity h' (Some (length h)) = Inr ((- 1) ^ n)"
proof -
  let ?h' = "h @ [\<lparr>data = identity_data n, rowsNumber = n, columnsNumber = n\<rparr>]"
  have nn: "n * n \<le> MATRIX_SIZE_MAX * MATRIX_SIZE_MAX"
    using assms by (intro mult_le_mono)
  have loop: "for_each [0..<n] (\<lambda>pivotIndex determinant.
           andThen (read_arr (identity_data n :: 'a list) (pivotIndex * n + pivotIndex)) (\<lambda>u.
           andThen (read_arr (map (\<lambda>i. int i + 1) [0..<n]) pivotIndex) (\<lambda>p.
             Inr (if p \<noteq> int pivotIndex then (determinant * u) * (- 1) else determinant * u)))) 1
         = Inr ((- 1) ^ n)"
  proof (rule determinant_loop)
    show "n \<le> n" "length (map (\<lambda>i. int i + 1) [0..<n]) = n" by simp_all
    show "i * n + i < length (identity_data n :: 'a list) \<and> (identity_data n :: 'a list) ! (i * n + i) = 1
        \<and> map (\<lambda>i. int i + 1) [0..<n] ! i = int i + 1" if "i < n" for i
      using that cell_index_less [of i n i n] by (simp add: identity_data_diagonal)
  qed
  have "Mat_Determinant lu_of_identity ?h' (Some (length h)) = Inr ((- 1) ^ n)"
    using assms nn
    by (simp add: Mat_Determinant_def deref_def scratch_copy_def call_dgetrf_def lu_of_identity_def overwrite_self loop)
  then show ?thesis
    using Mat_CreateSquare_identity [OF assms, of h] by simp
qed

theorem determinant_of_identity_order_1:
  "Mat_CreateSquare ([] :: real heap) 1 MATRIX_IDENTITY
     = Inr (Some 0, [\<lparr>data = [1], rowsNumber = 1, columnsNumber = 1\<rparr>])
   \<and> Mat_Determinant lu_of_identity [\<lparr>data = [1 :: real], rowsNumber = 1, columnsNumber = 1\<rparr>] (Some 0)
     = Inr (- 1)"
proof -
  have created: "Mat_CreateSquare ([] :: real heap) 1 MATRIX_IDENTITY
      = Inr (Some 0, [\<lparr>data = [1], rowsNumber = 1, columnsNumber = 1\<rparr>])"
    by (simp add: Mat_CreateSquare_def Mat_Create_def Mat_Clear_def prim_defs)
  have "1 \<le> MATRIX_SIZE_MAX"
    by (simp add: MATRIX_SIZE_MAX_def)
  from determinant_of_identity [OF this, of "[] :: real heap"] created
  show ?thesis by simp
qed

section \<open>Null handles\<close>

text \<open>
  C5. With a non-null source and a null result, \<open>Mat_Scale\<close>, \<open>Mat_Sum\<close>, \<open>Mat_Dot\<close> and
  \<open>Mat_Transpose\<close> dereference the null result; \<open>Mat_CreateSquare\<close> of a size over the
  limit and of identity kind dereferences the null handle \<open>Mat_Create\<close> returned.
\<close>

theorem null_result_is_dereferenced:
  "Mat_Scale [\<lparr>data = [1, 2, 3, 4 :: real], rowsNumber = 2, columnsNumber = 2\<rparr>] (Some 0) 2 None
     = Inl NullDereference
   \<and> Mat_Sum [\<lparr>data = [1, 2, 3, 4 :: real], rowsNumber = 2, columnsNumber = 2\<rparr>] (Some 0) 1 (Some 0) 1 None
     = Inl NullDereference
   \<and> Mat_Dot dgemm [\<lparr>data = [1, 2, 3, 4 :: real], rowsNumber = 2, columnsNumber = 2\<rparr>]
        (Some 0) (CHR ''N'') (Some 0) (CHR ''N'') None
     = Inl NullDereference
   \<and> Mat_Transpose [\<lparr>data = [1, 2, 3, 4 :: real], rowsNumber = 2, columnsNumber = 2\<rparr>] (Some 0) None
     = Inl NullDereference
   \<and> Mat_CreateSquare ([] :: real heap) 2501 MATRIX_IDENTITY = Inl NullDereference"
  by (simp add: Mat_Scale_def Mat_Sum_def Mat_Dot_def Mat_Transpose_def Mat_CreateSquare_def
      Mat_Create_def MATRIX_TRANSPOSE_def prim_defs upt_eval(1))

theorem null_result_is_dereferenced_witness:
  "Mat_Sum [\<lparr>data = [1, 2, 3, 4 :: real], rowsNumber = 2, columnsNumber = 2\<rparr>] (Some 0) 1 (Some 0) 1 None
     = Inl NullDereference
   \<and> Mat_Dot (\<lambda>tA tB m n k alpha A ldA B ldB beta ldC. replicate (m * n) 0)
        [\<lparr>data = [1, 2, 3, 4 :: real], rowsNumber = 2, columnsNumber = 2\<rparr>]
        (Some 0) (CHR ''N'') (Some 0) (CHR ''N'') None
     = Inl NullDereference"
  using null_result_is_dereferenced [of "\<lambda>tA tB m n k alpha A ldA B ldB beta ldC. replicate (m * n) 0"]
  by simp

section \<open>Failed operations\<close>

text \<open>
  C7. When \<open>Mat_Scale\<close>, \<open>Mat_Sum\<close>, \<open>Mat_Dot\<close>, \<open>Mat_Transpose\<close> or \<open>Mat_Inverse\<close> fails
  because an input handle is null, or because the dimensions of the inputs do not fit
  (different shapes for the sum, different coupling lengths for the product, a
  non-square matrix for the inverse), it returns the null handle and the heap it was
  given: no matrix, the result included, has changed in dimensions or contents.
\<close>

theorem failed_operation_keeps_heap:
  fixes h :: "'a::{zero,one,plus,times} heap"
  shows "Mat_Scale h None k result = Inr (None, h)
       \<and> Mat_Transpose h None result = Inr (None, h)
       \<and> (m1 = None \<or> m2 = None \<longrightarrow>
            Mat_Sum h m1 w1 m2 w2 result = Inr (None, h)
          \<and> Mat_Dot dgemm h m1 t1 m2 t2 result = Inr (None, h))
       \<and> (m1 = None \<or> result = None \<longrightarrow> Mat_Inverse dgetrf dgetri h m1 result = Inr (None, h))
       \<and> (a < length h \<and> b < length h \<longrightarrow>
            (rowsNumber (h ! a) \<noteq> rowsNumber (h ! b) \<or> columnsNumber (h ! a) \<noteq> columnsNumber (h ! b) \<longrightarrow>
               Mat_Sum h (Some a) w1 (Some b) w2 result = Inr (None, h))
          \<and> ((if t1 = MATRIX_TRANSPOSE then rowsNumber (h ! a) else columnsNumber (h ! a))
                \<noteq> (if t2 = MATRIX_TRANSPOSE then columnsNumber (h ! b) else rowsNumber (h ! b)) \<longrightarrow>
               Mat_Dot dgemm h (Some a) t1 (Some b) t2 result = Inr (None, h))
          \<and> (rowsNumber (h ! a) \<noteq> columnsNumber (h ! a) \<longrightarrow>
               Mat_Inverse dgetrf dgetri h (Some a) result = Inr (None, h)))"
proof -
  have scale: "Mat_Scale h None k result = Inr (None, h)"
    by (simp add: Mat_Scale_def)
  have transpose: "Mat_Transpose h None result = Inr (None, h)"
    by (simp add: Mat_Transpose_def)
  have null_sum: "Mat_Sum h m1 w1 m2 w2 result = Inr (None, h)" if "m1 = None \<or> m2 = None"
    using that by (simp add: Mat_Sum_def)
  have null_dot: "Mat_Dot dgemm h m1 t1 m2 t2 result = Inr (None, h)" if "m1 = None \<or> m2 = None"
    using that by (simp add: Mat_Dot_def)
  have null_inverse: "Mat_Inverse dgetrf dgetri h m1 result = Inr (None, h)"
    if "m1 = None \<or> result = None"
    using that by (simp add: Mat_Inverse_def)
  have sum: "Mat_Sum h (Some a) w1 (Some b) w2 result = Inr (None, h)"
    if "a < length h" "b < length h"
      "rowsNumber (h ! a) \<noteq> rowsNumber (h ! b) \<or> columnsNumber (h ! a) \<noteq> columnsNumber (h ! b)"
    using that by (auto simp add: Mat_Sum_def deref_def)
  have dot: "Mat_Dot dgemm h (Some a) t1 (Some b) t2 result = Inr (None, h)"
    if "a < length h" "b < length h"
      "(if t1 = MATRIX_TRANSPOSE then rowsNumber (h ! a) else columnsNumber (h ! a))
         \<noteq> (if t2 = MATRIX_TRANSPOSE then columnsNumber (h ! b) else rowsNumber (h ! b))"
    using that by (simp add: Mat_Dot_def deref_def Let_def)
  have inverse: "Mat_Inverse dgetrf dgetri h (Some a) result = Inr (None, h)"
    if "a < length h" "rowsNumber (h ! a) \<noteq> columnsNumber (h ! a)"
    using that by (simp add: Mat_Inverse_def deref_def)
  show ?thesis
    using scale transpose null_sum null_dot null_inverse sum dot inverse by blast
qed

theorem failed_operation_keeps_heap_witness:
  "Mat_Sum [\<lparr>data = [1, 2, 3, 4 :: real], rowsNumber = 2, columnsNumber = 2\<rparr>,
            \<lparr>data = [1, 2, 3, 4, 5, 6], rowsNumber = 2, columnsNumber = 3\<rparr>] (Some 1) 1 None 1 (Some 0)
     = Inr (None, [\<lparr>data = [1, 2, 3, 4], rowsNumber = 2, columnsNumber = 2\<rparr>,
                   \<lparr>data = [1, 2, 3, 4, 5, 6], rowsNumber = 2, columnsNumber = 3\<rparr>])
   \<and> Mat_Inverse lu_of_identity (\<lambda>N A ldA IPIV lwork. (A, 0))
          [\<lparr>data = [1, 2, 3, 4 :: real], rowsNumber = 2, columnsNumber = 2\<rparr>,
           \<lparr>data = [1, 2, 3, 4, 5, 6], rowsNumber = 2, columnsNumber = 3\<rparr>] (Some 1) None
     = Inr (None, [\<lparr>data = [1, 2, 3, 4], rowsNumber = 2, columnsNumber = 2\<rparr>,
                   \<lparr>data = [1, 2, 3, 4, 5, 6], rowsNumber = 2, columnsNumber = 3\<rparr>])
   \<and> Mat_Sum [\<lparr>data = [1, 2, 3, 4 :: real], rowsNumber = 2, columnsNumber = 2\<rparr>,
            \<lparr>data = [1, 2, 3, 4, 5, 6], rowsNumber = 2, columnsNumber = 3\<rparr>] (Some 1) 1 (Some 0) 1 (Some 0)
     = Inr (None, [\<lparr>data = [1, 2, 3, 4], rowsNumber = 2, columnsNumber = 2\<rparr>,
                   \<lparr>data = [1, 2, 3, 4, 5, 6], rowsNumber = 2, columnsNumber = 3\<rparr>])
   \<and> Mat_Dot (\<lambda>tA tB m n k alpha A ldA B ldB beta ldC. replicate (m * n) 0)
          [\<lparr>data = [1, 2, 3, 4 :: real], rowsNumber = 2, columnsNumber = 2\<rparr>,
           \<lparr>data = [1, 2, 3, 4, 5, 6], rowsNumber = 2, columnsNumber = 3\<rparr>]
          (Some 1) (CHR ''N'') (Some 0) (CHR ''N'') (Some 0)
     = Inr (None, [\<lparr>data = [1, 2, 3, 4], rowsNumber = 2, columnsNumber = 2\<rparr>,
                   \<lparr>data = [1, 2, 3, 4, 5, 6], rowsNumber = 2, columnsNumber = 3\<rparr>])
   \<and> Mat_Inverse lu_of_identity (\<lambda>N A ldA IPIV lwork. (A, 0))
          [\<lparr>data = [1, 2, 3, 4 :: real], rowsNumber = 2, columnsNumber = 2\<rparr>,
           \<lparr>data = [1, 2, 3, 4, 5, 6], rowsNumber = 2, columnsNumber = 3\<rparr>] (Some 1) (Some 0)
     = Inr (None, [\<lparr>data = [1, 2, 3, 4], rowsNumber = 2, columnsNumber = 2\<rparr>,
                   \<lparr>data = [1, 2, 3, 4, 5, 6], rowsNumber = 2, columnsNumber = 3\<rparr>])"
  using failed_operation_keeps_heap
    [of "[\<lparr>data = [1, 2, 3, 4 :: real], rowsNumber = 2, columnsNumber = 2\<rparr>,
          \<lparr>data = [1, 2, 3, 4, 5, 6], rowsNumber = 2, columnsNumber = 3\<rparr>]"
        1 "Some 0" "Some 1" None 1 1
        "\<lambda>tA tB m n k alpha A ldA B ldB beta ldC. replicate (m * n) 0" "CHR ''N''" "CHR ''N''"
        lu_of_identity "\<lambda>N A ldA IPIV lwork. (A, 0)" 1 0]
    failed_operation_keeps_heap
    [of "[\<lparr>data = [1, 2, 3, 4 :: real], rowsNumber = 2, columnsNumber = 2\<rparr>,
          \<lparr>data = [1, 2, 3, 4, 5, 6], rowsNumber = 2, columnsNumber = 3\<rparr>]"
        1 None "Some 1" None 1 1
        "\<lambda>tA tB m n k alpha A ldA B ldB beta ldC. replicate (m * n) 0" "CHR ''N''" "CHR ''N''"
        lu_of_identity "\<lambda>N A ldA IPIV lwork. (A, 0)" 1 0]
  by (simp add: MATRIX_TRANSPOSE_def)

end
